theory Spec2Isabelle
  imports Main "HOL-Library.Word"
begin

unbundle bit_operations_syntax

section \<open>Register space, access log and caller buffer\<close>

text \<open>
  The three drivers talk to their device through the kernel's register accessors, which
  are not part of the drivers. The device is therefore a parameter: any state type
  \<open>'h\<close> with a deterministic answer to a load, a store and the passing of time.
  Every access is appended to a log, so that the number and the order of the accesses
  of a call can be read off the final state. A load is logged with the value it returned.

  The registers and fields of the ath9k baseband that the driver names come from a
  header that is not among the sources; they are kept as names.
\<close>

datatype ath_reg = AR_PHY_TEST | AR_PHY_TEST_CTL_STATUS | AR_PHY_TST_ADC

datatype ath_field =
  AR_PHY_TEST_BBB_OBS_SEL | AR_PHY_TEST_RX_OBS_SEL_BIT5 | AR_PHY_TEST_CTL_RX_OBS_SEL

datatype 'v event =
    MmioRead nat 'v
  | MmioWrite nat 'v
  | Udelay nat
  | Ndelay nat
  | IrqDisable
  | IrqEnable
  | PsWakeup
  | PsRestore
  | RegRmwField ath_reg ath_field 'v
  | RegClrBit ath_reg ath_field
  | RegRead ath_reg 'v
  | SetDrvdata
  | HwrngRegister

record ('h, 'v) dev =
  dev_read :: "nat \<Rightarrow> 'h \<Rightarrow> 'v \<times> 'h"
  dev_write :: "nat \<Rightarrow> 'v \<Rightarrow> 'h \<Rightarrow> 'h"
  dev_delay :: "nat \<Rightarrow> 'h \<Rightarrow> 'h"

text \<open>
  \<open>mem\<close> is the memory at the caller's \<open>data\<close> pointer, indexed in words of the
  driver's width (\<open>out[i]\<close> is \<open>mem s i\<close>); the index is an \<open>int\<close> because the
  drivers index with C \<open>int\<close> variables.
\<close>

record ('h, 'v) mach =
  hw :: 'h
  log :: "'v event list"
  mem :: "int \<Rightarrow> 'v"

definition mmio_read ::
  "('h, 'v) dev \<Rightarrow> nat \<Rightarrow> ('h, 'v) mach \<Rightarrow> 'v \<times> ('h, 'v) mach" where
  "mmio_read d off s =
     (let (v, h) = dev_read d off (hw s)
      in (v, s\<lparr>hw := h, log := log s @ [MmioRead off v]\<rparr>))"

definition mmio_write ::
  "('h, 'v) dev \<Rightarrow> 'v \<Rightarrow> nat \<Rightarrow> ('h, 'v) mach \<Rightarrow> ('h, 'v) mach" where
  "mmio_write d v off s =
     s\<lparr>hw := dev_write d off v (hw s), log := log s @ [MmioWrite off v]\<rparr>"

text \<open>\<open>udelay(n)\<close> and \<open>ndelay(n)\<close>; the device sees the time in nanoseconds.\<close>

definition udelay ::
  "(nat \<Rightarrow> 'h \<Rightarrow> 'h) \<Rightarrow> nat \<Rightarrow> ('h, 'v) mach \<Rightarrow> ('h, 'v) mach" where
  "udelay dl n s = s\<lparr>hw := dl (1000 * n) (hw s), log := log s @ [Udelay n]\<rparr>"

definition ndelay ::
  "(nat \<Rightarrow> 'h \<Rightarrow> 'h) \<Rightarrow> nat \<Rightarrow> ('h, 'v) mach \<Rightarrow> ('h, 'v) mach" where
  "ndelay dl n s = s\<lparr>hw := dl n (hw s), log := log s @ [Ndelay n]\<rparr>"

text \<open>
  The error numbers come from the kernel's errno header, which is not among the sources;
  the values are those of Linux. The drivers return them negated, and the theorems use
  of them only that they are positive.
\<close>

definition EINVAL :: int where "EINVAL = 22"
definition EIO :: int where "EIO = 5"
definition ENOMEM :: int where "ENOMEM = 12"

section \<open>Freescale RNGA (mxc-rnga.c)\<close>

definition RNGA_CONTROL :: nat where "RNGA_CONTROL = 0x00"
definition RNGA_STATUS :: nat where "RNGA_STATUS = 0x04"
definition RNGA_OUTPUT_FIFO :: nat where "RNGA_OUTPUT_FIFO = 0x0c"

definition RNGA_CONTROL_CLEAR_INT :: "32 word" where "RNGA_CONTROL_CLEAR_INT = 0x00000008"
definition RNGA_STATUS_LEVEL_MASK :: "32 word" where "RNGA_STATUS_LEVEL_MASK = 0x0000ff00"
definition RNGA_STATUS_ERROR_INT :: "32 word" where "RNGA_STATUS_ERROR_INT = 0x00000008"

type_synonym 'h rnga = "('h, 32 word) mach"

definition raw_readl :: "('h, 32 word) dev \<Rightarrow> nat \<Rightarrow> 'h rnga \<Rightarrow> 32 word \<times> 'h rnga" where
  "raw_readl = mmio_read"

definition raw_writel :: "('h, 32 word) dev \<Rightarrow> 32 word \<Rightarrow> nat \<Rightarrow> 'h rnga \<Rightarrow> 'h rnga" where
  "raw_writel = mmio_write"

text \<open>
  The \<open>while (wait && !present && retries--)\<close> loop of \<open>mxc_rnga_read\<close>.
  \<open>present\<close> is the status word under the level mask, a value of at most \<open>0xff00\<close>
  that the C \<open>int\<close> holds unchanged. \<open>retries\<close> starts at 20 and is decremented
  only after it was found nonzero, except for the last test, whose decrement to \<open>-1\<close> is
  never read; it is a \<open>nat\<close> here.
\<close>

function mxc_rnga_wait ::
  "('h, 32 word) dev \<Rightarrow> bool \<Rightarrow> 32 word \<Rightarrow> nat \<Rightarrow> 'h rnga \<Rightarrow> 32 word \<times> 'h rnga" where
  "mxc_rnga_wait d wait present retries s =
     (if wait \<and> present = 0 \<and> retries \<noteq> 0 then
        let s1 = udelay (dev_delay d) 10 s;
            (v, s2) = raw_readl d RNGA_STATUS s1
        in mxc_rnga_wait d wait (v AND RNGA_STATUS_LEVEL_MASK) (retries - 1) s2
      else (present, s))"
  by pat_completeness auto
termination
  by (relation "measure (\<lambda>(d, wait, present, retries, s). retries)") auto

declare mxc_rnga_wait.simps [simp del]

text \<open>
  The \<open>for (i = 0; i < max; i++)\<close> loop of \<open>mxc_rnga_read\<close>; the first component
  of the result tells whether the loop was left through \<open>goto err_clear\<close>, the second
  is \<open>i\<close> at that moment. \<open>i\<close> stays at or below the new \<open>max\<close>, which is at most
  255, so the \<open>int\<close> is a \<open>nat\<close> here.
\<close>

function mxc_rnga_drain ::
  "('h, 32 word) dev \<Rightarrow> nat \<Rightarrow> nat \<Rightarrow> 'h rnga \<Rightarrow> bool \<times> nat \<times> 'h rnga" where
  "mxc_rnga_drain d maxw i s =
     (if i < maxw then
        let (v, s1) = raw_readl d RNGA_OUTPUT_FIFO s;
            s2 = s1\<lparr>mem := (mem s1)(int i := v)\<rparr>;
            (st, s3) = raw_readl d RNGA_STATUS s2;
            err = st AND RNGA_STATUS_ERROR_INT
        in if err \<noteq> 0 then (True, i, s3) else mxc_rnga_drain d maxw (i + 1) s3
      else (False, i, s))"
  by pat_completeness auto
termination
  by (relation "measure (\<lambda>(d, maxw, i, s). maxw - i)") auto

declare mxc_rnga_drain.simps [simp del]

text \<open>
  \<open>mxc_rnga_read(rng, data, max, wait)\<close>. \<open>max\<close> is a \<open>size_t\<close> (\<open>maxb\<close>
  here, in bytes); it is only compared and divided before it is replaced by a count of
  at most 255 words (\<open>maxw\<close>), so no arithmetic on it can wrap and it is a
  \<open>nat\<close>. The result is the C \<open>int\<close>: negative for an error code. \<open>WARN_ON\<close>
  and \<open>dev_dbg\<close> only print. Both exits after the drain return \<open>i * sizeof(u32)\<close>.
\<close>

definition mxc_rnga_read ::
  "('h, 32 word) dev \<Rightarrow> nat \<Rightarrow> bool \<Rightarrow> 'h rnga \<Rightarrow> int \<times> 'h rnga" where
  "mxc_rnga_read d maxb wait s =
     (if maxb < 4 then (- EINVAL, s)
      else
        let (v0, s0) = raw_readl d RNGA_STATUS s;
            (present, s1) = mxc_rnga_wait d wait (v0 AND RNGA_STATUS_LEVEL_MASK) 20 s0
        in if present = 0 then (0, s1)
           else
             let maxw = min (unat (drop_bit 8 present)) (maxb div 4);
                 (err, i, s2) = mxc_rnga_drain d maxw 0 s1
             in if err then
                  let (ctrl, s3) = raw_readl d RNGA_CONTROL s2;
                      s4 = raw_writel d (ctrl OR RNGA_CONTROL_CLEAR_INT) RNGA_CONTROL s3
                  in (int (i * 4), s4)
                else (int (i * 4), s2))"

section \<open>TX4939 (tx4939-rng.c)\<close>

definition TX4939_RNG_RCSR :: nat where "TX4939_RNG_RCSR = 0x00000000"
definition TX4939_RNG_ROR :: "nat \<Rightarrow> nat" where "TX4939_RNG_ROR n = 0x00000018 + n * 8"

definition TX4939_RNG_RCSR_RST :: "64 word" where "TX4939_RNG_RCSR_RST = 0x00000004"
definition TX4939_RNG_RCSR_ST :: "64 word" where "TX4939_RNG_RCSR_ST = 0x00000001"

type_synonym 'h tx = "('h, 64 word) mach"

text \<open>
  \<open>rng_io_start\<close> and \<open>rng_io_end\<close> mask and unmask interrupts unless
  \<open>CONFIG_64BIT\<close> is set; \<open>c64\<close> is that configuration switch. Masking does not
  touch the device and is only logged.
\<close>

definition rng_io_start :: "bool \<Rightarrow> 'h tx \<Rightarrow> 'h tx" where
  "rng_io_start c64 s = (if c64 then s else s\<lparr>log := log s @ [IrqDisable]\<rparr>)"

definition rng_io_end :: "bool \<Rightarrow> 'h tx \<Rightarrow> 'h tx" where
  "rng_io_end c64 s = (if c64 then s else s\<lparr>log := log s @ [IrqEnable]\<rparr>)"

definition read_rng :: "('h, 64 word) dev \<Rightarrow> nat \<Rightarrow> 'h tx \<Rightarrow> 64 word \<times> 'h tx" where
  "read_rng = mmio_read"

definition write_rng :: "('h, 64 word) dev \<Rightarrow> 64 word \<Rightarrow> nat \<Rightarrow> 'h tx \<Rightarrow> 'h tx" where
  "write_rng = mmio_write"

text \<open>
  The \<open>while (wait && !present && retries--)\<close> loop of \<open>tx4939_rng_read\<close>;
  \<open>present\<close> is the truth value of \<open>!(RCSR & ST)\<close>.
\<close>

function tx4939_rng_wait ::
  "bool \<Rightarrow> ('h, 64 word) dev \<Rightarrow> bool \<Rightarrow> bool \<Rightarrow> nat \<Rightarrow> 'h tx \<Rightarrow> bool \<times> 'h tx" where
  "tx4939_rng_wait c64 d wait present retries s =
     (if wait \<and> \<not> present \<and> retries \<noteq> 0 then
        let s1 = ndelay (dev_delay d) (90 * 5) s;
            s2 = rng_io_start c64 s1;
            (v, s3) = read_rng d TX4939_RNG_RCSR s2;
            s4 = rng_io_end c64 s3
        in tx4939_rng_wait c64 d wait (v AND TX4939_RNG_RCSR_ST = 0) (retries - 1) s4
      else (present, s))"
  by pat_completeness auto
termination
  by (relation "measure (\<lambda>(c64, d, wait, present, retries, s). retries)") auto

declare tx4939_rng_wait.simps [simp del]

text \<open>The \<open>for (i = 0; i < max; i++)\<close> loop of \<open>tx4939_rng_read\<close>; the result is \<open>i\<close>.\<close>

function tx4939_rng_copy ::
  "('h, 64 word) dev \<Rightarrow> nat \<Rightarrow> nat \<Rightarrow> 'h tx \<Rightarrow> nat \<times> 'h tx" where
  "tx4939_rng_copy d maxw i s =
     (if i < maxw then
        let (v, s1) = read_rng d (TX4939_RNG_ROR i) s
        in tx4939_rng_copy d maxw (i + 1) (s1\<lparr>mem := (mem s1)(int i := v)\<rparr>)
      else (i, s))"
  by pat_completeness auto
termination
  by (relation "measure (\<lambda>(d, maxw, i, s). maxw - i)") auto

declare tx4939_rng_copy.simps [simp del]

text \<open>
  \<open>tx4939_rng_read(rng, data, max, wait)\<close>, with \<open>max\<close> (\<open>maxb\<close>) and the counters
  as for RNGA: the new \<open>max\<close> (\<open>maxw\<close>) is at most 3.
\<close>

definition tx4939_rng_read ::
  "bool \<Rightarrow> ('h, 64 word) dev \<Rightarrow> nat \<Rightarrow> bool \<Rightarrow> 'h tx \<Rightarrow> int \<times> 'h tx" where
  "tx4939_rng_read c64 d maxb wait s =
     (if maxb < 8 then (- EINVAL, s)
      else
        let s0 = rng_io_start c64 s;
            (v0, s1) = read_rng d TX4939_RNG_RCSR s0;
            s2 = rng_io_end c64 s1;
            (present, s3) = tx4939_rng_wait c64 d wait (v0 AND TX4939_RNG_RCSR_ST = 0) 20 s2
        in if \<not> present then (0, s3)
           else
             let maxw = min 3 (maxb div 8);
                 s4 = rng_io_start c64 s3;
                 (i, s5) = tx4939_rng_copy d maxw 0 s4;
                 s6 = write_rng d TX4939_RNG_RCSR_ST TX4939_RNG_RCSR s5;
                 s7 = rng_io_end c64 s6
             in (int (i * 8), s7))"

text \<open>
  What \<open>tx4939_rng_probe\<close> gets from the kernel: whether \<open>devm_kzalloc\<close> returned
  memory, the error of \<open>devm_ioremap_resource\<close> if it failed, and the result of
  \<open>devm_hwrng_register\<close>.
\<close>

record probe_env =
  kzalloc_ok :: bool
  ioremap_err :: "int option"
  hwrng_register_ret :: int

text \<open>
  The \<open>for (i = 0; i < 2; i++)\<close> loop of \<open>tx4939_rng_probe\<close>; \<open>True\<close> when it was
  left through \<open>return -EIO\<close>. \<open>flush\<close> is \<open>mem\<close>, \<open>sizeof(flush)\<close> is 24.
\<close>

function tx4939_rng_flush ::
  "bool \<Rightarrow> ('h, 64 word) dev \<Rightarrow> nat \<Rightarrow> 'h tx \<Rightarrow> bool \<times> 'h tx" where
  "tx4939_rng_flush c64 d i s =
     (if i < 2 then
        let (r, s1) = tx4939_rng_read c64 d 24 True s
        in if r = 0 then (True, s1) else tx4939_rng_flush c64 d (i + 1) s1
      else (False, s))"
  by pat_completeness auto
termination
  by (relation "measure (\<lambda>(c64, d, i, s). 2 - i)") auto

declare tx4939_rng_flush.simps [simp del]

text \<open>
  \<open>tx4939_rng_probe\<close>. Setting the name and the read function of the \<open>hwrng\<close> has no
  effect on the machine; \<open>platform_set_drvdata\<close> and \<open>devm_hwrng_register\<close> are logged.
\<close>

definition tx4939_rng_probe ::
  "bool \<Rightarrow> ('h, 64 word) dev \<Rightarrow> probe_env \<Rightarrow> 'h tx \<Rightarrow> int \<times> 'h tx" where
  "tx4939_rng_probe c64 d env s =
     (if \<not> kzalloc_ok env then (- ENOMEM, s)
      else case ioremap_err env of
        Some e \<Rightarrow> (e, s)
      | None \<Rightarrow>
          let s1 = rng_io_start c64 s;
              s2 = write_rng d TX4939_RNG_RCSR_RST TX4939_RNG_RCSR s1;
              s3 = write_rng d 0 TX4939_RNG_RCSR s2;
              s4 = write_rng d TX4939_RNG_RCSR_ST TX4939_RNG_RCSR s3;
              s5 = rng_io_end c64 s4;
              (failed, s6) = tx4939_rng_flush c64 d 0 s5
          in if failed then (- EIO, s6)
             else (hwrng_register_ret env, s6\<lparr>log := log s6 @ [SetDrvdata, HwrngRegister]\<rparr>))"

section \<open>Atheros ath9k ADC noise (rng.c)\<close>

text \<open>
  The register macros and the power-save calls of ath9k are outside the driver file; they
  are parameters, each an arbitrary transformer of the device state.
\<close>

record 'h ath_ops =
  ps_wakeup :: "'h \<Rightarrow> 'h"
  ps_restore :: "'h \<Rightarrow> 'h"
  reg_rmw_field :: "ath_reg \<Rightarrow> ath_field \<Rightarrow> 32 word \<Rightarrow> 'h \<Rightarrow> 'h"
  reg_clr_bit :: "ath_reg \<Rightarrow> ath_field \<Rightarrow> 'h \<Rightarrow> 'h"
  reg_read :: "ath_reg \<Rightarrow> 'h \<Rightarrow> 32 word \<times> 'h"
  ath_delay :: "nat \<Rightarrow> 'h \<Rightarrow> 'h"

type_synonym 'h ath = "('h, 32 word) mach"

text \<open>
  Of \<open>struct ath_softc\<close> the driver file reads and writes \<open>rng_last\<close>; the hardware
  handle \<open>sc_ah\<close> is the device of the machine.
\<close>

record ath_softc =
  rng_last :: "32 word"

definition ath9k_ps_wakeup :: "'h ath_ops \<Rightarrow> 'h ath \<Rightarrow> 'h ath" where
  "ath9k_ps_wakeup ops m = m\<lparr>hw := ps_wakeup ops (hw m), log := log m @ [PsWakeup]\<rparr>"

definition ath9k_ps_restore :: "'h ath_ops \<Rightarrow> 'h ath \<Rightarrow> 'h ath" where
  "ath9k_ps_restore ops m = m\<lparr>hw := ps_restore ops (hw m), log := log m @ [PsRestore]\<rparr>"

definition REG_RMW_FIELD ::
  "'h ath_ops \<Rightarrow> ath_reg \<Rightarrow> ath_field \<Rightarrow> 32 word \<Rightarrow> 'h ath \<Rightarrow> 'h ath" where
  "REG_RMW_FIELD ops r f v m =
     m\<lparr>hw := reg_rmw_field ops r f v (hw m), log := log m @ [RegRmwField r f v]\<rparr>"

definition REG_CLR_BIT :: "'h ath_ops \<Rightarrow> ath_reg \<Rightarrow> ath_field \<Rightarrow> 'h ath \<Rightarrow> 'h ath" where
  "REG_CLR_BIT ops r f m =
     m\<lparr>hw := reg_clr_bit ops r f (hw m), log := log m @ [RegClrBit r f]\<rparr>"

definition REG_READ :: "'h ath_ops \<Rightarrow> ath_reg \<Rightarrow> 'h ath \<Rightarrow> 32 word \<times> 'h ath" where
  "REG_READ ops r m =
     (let (v, h) = reg_read ops r (hw m)
      in (v, m\<lparr>hw := h, log := log m @ [RegRead r v]\<rparr>))"

text \<open>
  The \<open>for (i = 0, j = 0; i < buf_size; i++)\<close> loop of \<open>ath9k_rng_data_read\<close>.
  \<open>buf_size\<close> is a \<open>u32\<close>; \<open>i\<close> and \<open>j\<close> are C \<open>int\<close>s, kept as 32-bit words:
  \<open>i < buf_size\<close> compares them as unsigned, \<open>+ 1\<close> wraps as the kernel's build
  makes signed arithmetic wrap, and \<open>buf[j]\<close> indexes with the signed value.
  \<open>rlast\<close> is the local \<open>rng_last\<close>. The result is \<open>j\<close> and the final \<open>rlast\<close>.
\<close>

function ath9k_rng_scan ::
  "'h ath_ops \<Rightarrow> 32 word \<Rightarrow> 32 word \<Rightarrow> 32 word \<Rightarrow> 32 word \<Rightarrow> 'h ath
     \<Rightarrow> 32 word \<times> 32 word \<times> 'h ath" where
  "ath9k_rng_scan ops buf_size i j rlast m =
     (if i < buf_size then
        let (r1, m1) = REG_READ ops AR_PHY_TST_ADC m;
            v1 = r1 AND 0xffff;
            (r2, m2) = REG_READ ops AR_PHY_TST_ADC m1;
            v2 = r2 AND 0xffff
        in if v1 \<noteq> 0 \<and> v2 \<noteq> 0 \<and> rlast \<noteq> v1 \<and> v1 \<noteq> v2 \<and> v1 \<noteq> 0xffff \<and> v2 \<noteq> 0xffff
           then ath9k_rng_scan ops buf_size (i + 1) (j + 1) v2
                  (m2\<lparr>mem := (mem m2)(sint j := push_bit 16 v1 OR v2)\<rparr>)
           else ath9k_rng_scan ops buf_size (i + 1) j v2 m2
      else (j, rlast, m))"
  by pat_completeness auto
termination
proof (relation "measure (\<lambda>(ops, buf_size, i, j, rlast, m). unat buf_size - unat i)",
    goal_cases)
  case 1
  show ?case by simp
next
  case (2 ops buf_size i)
  have inc: "unat (i + 1) = Suc (unat i) \<and> unat i < unat buf_size"
  proof -
    from \<open>i < buf_size\<close> have lt: "unat i < unat buf_size"
      by (simp add: word_less_nat_alt)
    moreover have "unat buf_size < 2 ^ 32"
      using unsigned_less [of buf_size] by simp
    ultimately have "unat i + unat (1::32 word) < 2 ^ LENGTH(32)"
      by simp
    then have "unat (i + 1) = unat i + unat (1::32 word)"
      by (simp only: unat_add_lem)
    with lt show ?thesis by simp
  qed
  have "unat buf_size - unat (i + 1) < unat buf_size - unat i"
    using inc by linarith
  then show ?case by simp
next
  case (3 ops buf_size i)
  have inc: "unat (i + 1) = Suc (unat i) \<and> unat i < unat buf_size"
  proof -
    from \<open>i < buf_size\<close> have lt: "unat i < unat buf_size"
      by (simp add: word_less_nat_alt)
    moreover have "unat buf_size < 2 ^ 32"
      using unsigned_less [of buf_size] by simp
    ultimately have "unat i + unat (1::32 word) < 2 ^ LENGTH(32)"
      by simp
    then have "unat (i + 1) = unat i + unat (1::32 word)"
      by (simp only: unat_add_lem)
    with lt show ?thesis by simp
  qed
  have "unat buf_size - unat (i + 1) < unat buf_size - unat i"
    using inc by linarith
  then show ?case by simp
qed

declare ath9k_rng_scan.simps [simp del]

definition ath9k_rng_data_read ::
  "'h ath_ops \<Rightarrow> 32 word \<Rightarrow> ath_softc \<Rightarrow> 'h ath \<Rightarrow> 32 word \<times> ath_softc \<times> 'h ath" where
  "ath9k_rng_data_read ops buf_size sc m =
     (let m1 = ath9k_ps_wakeup ops m;
          m2 = REG_RMW_FIELD ops AR_PHY_TEST AR_PHY_TEST_BBB_OBS_SEL 1 m1;
          m3 = REG_CLR_BIT ops AR_PHY_TEST AR_PHY_TEST_RX_OBS_SEL_BIT5 m2;
          m4 = REG_RMW_FIELD ops AR_PHY_TEST_CTL_STATUS AR_PHY_TEST_CTL_RX_OBS_SEL 0 m3;
          (j, rlast, m5) = ath9k_rng_scan ops buf_size 0 0 (rng_last sc) m4;
          m6 = ath9k_ps_restore ops m5
      in (j, sc\<lparr>rng_last := rlast\<rparr>, m6))"

text \<open>
  The \<open>while (wait && !u32s_read && retries--)\<close> loop of \<open>ath9k_rng_read\<close>.
  \<open>max / sizeof(u32)\<close> is a \<open>size_t\<close> passed as a \<open>u32\<close>: it is truncated to 32 bits.
\<close>

function ath9k_rng_retry ::
  "'h ath_ops \<Rightarrow> nat \<Rightarrow> bool \<Rightarrow> 32 word \<Rightarrow> nat \<Rightarrow> ath_softc \<Rightarrow> 'h ath
     \<Rightarrow> 32 word \<times> ath_softc \<times> 'h ath" where
  "ath9k_rng_retry ops maxb wait u32s_read retries sc m =
     (if wait \<and> u32s_read = 0 \<and> retries \<noteq> 0 then
        let m1 = udelay (ath_delay ops) 10 m;
            (j, sc1, m2) = ath9k_rng_data_read ops (word_of_nat (maxb div 4)) sc m1
        in ath9k_rng_retry ops maxb wait j (retries - 1) sc1 m2
      else (u32s_read, sc, m))"
  by pat_completeness auto
termination
  by (relation "measure (\<lambda>(ops, maxb, wait, u32s_read, retries, sc, m). retries)") auto

declare ath9k_rng_retry.simps [simp del]

text \<open>
  \<open>ath9k_rng_read\<close>. The result \<open>u32s_read * sizeof(u32)\<close> is computed in \<open>size_t\<close>
  and converted to the \<open>int\<close> that is returned: the low 32 bits of the product, read
  as a signed number.
\<close>

definition ath9k_rng_read ::
  "'h ath_ops \<Rightarrow> nat \<Rightarrow> bool \<Rightarrow> ath_softc \<Rightarrow> 'h ath \<Rightarrow> int \<times> ath_softc \<times> 'h ath" where
  "ath9k_rng_read ops maxb wait sc m =
     (if maxb < 4 then (- EINVAL, sc, m)
      else
        let (j, sc1, m1) = ath9k_rng_data_read ops (word_of_nat (maxb div 4)) sc m;
            (u32s_read, sc2, m2) = ath9k_rng_retry ops maxb wait j 20 sc1 m1
        in (sint (u32s_read * 4), sc2, m2))"

section \<open>What a call leaves in the access log\<close>

text \<open>
  The definitions of this section are not part of the drivers. They name the readings of
  the status words and the event sequences that the loops append to the log, as functions
  of the values the device returned, so that theorems can say what a call did.
\<close>

subsection \<open>The buffer\<close>

text \<open>
  \<open>stored f ws\<close> is the buffer \<open>f\<close> with the words \<open>ws\<close> at the indices
  \<open>0 .. length ws - 1\<close> and every other index as in \<open>f\<close>.
\<close>

definition stored :: "(int \<Rightarrow> 'v) \<Rightarrow> 'v list \<Rightarrow> int \<Rightarrow> 'v" where
  "stored f ws t = (if 0 \<le> t \<and> t < int (length ws) then ws ! nat t else f t)"

subsection \<open>RNGA\<close>

text \<open>
  The level field of a status word, the word count it stands for, and the error interrupt
  bit. \<open>rnga_polled wait v0 vs\<close> describes the status words of the readiness checks of
  one call, \<open>v0\<close> from the first check and \<open>vs\<close> from the re-checks: at most 20
  re-checks, none unless \<open>wait\<close>, and every check but the last found level 0.
\<close>

definition rnga_level :: "32 word \<Rightarrow> 32 word" where
  "rnga_level v = v AND RNGA_STATUS_LEVEL_MASK"

definition rnga_avail :: "32 word \<Rightarrow> nat" where
  "rnga_avail v = unat (drop_bit 8 (rnga_level v))"

definition rnga_fault :: "32 word \<Rightarrow> bool" where
  "rnga_fault st = (st AND RNGA_STATUS_ERROR_INT \<noteq> 0)"

definition rnga_polled :: "bool \<Rightarrow> 32 word \<Rightarrow> 32 word list \<Rightarrow> bool" where
  "rnga_polled wait v0 vs \<longleftrightarrow>
     length vs \<le> 20 \<and> (vs \<noteq> [] \<longrightarrow> wait) \<and> (\<forall>x \<in> set (butlast (v0 # vs)). rnga_level x = 0)"

text \<open>
  The events of the re-checks that read the status words \<open>vs\<close>; of a drain that read the
  words and status words \<open>ps\<close>; and of the clearing of the error interrupt when the
  control register read \<open>ctrl\<close>.
\<close>

definition rnga_poll_evs :: "32 word list \<Rightarrow> 32 word event list" where
  "rnga_poll_evs vs = concat (map (\<lambda>v. [Udelay 10, MmioRead RNGA_STATUS v]) vs)"

definition rnga_drain_evs :: "(32 word \<times> 32 word) list \<Rightarrow> 32 word event list" where
  "rnga_drain_evs ps =
     concat (map (\<lambda>(w, st). [MmioRead RNGA_OUTPUT_FIFO w, MmioRead RNGA_STATUS st]) ps)"

definition rnga_clear_evs :: "32 word \<Rightarrow> 32 word event list" where
  "rnga_clear_evs ctrl =
     [MmioRead RNGA_CONTROL ctrl, MmioWrite RNGA_CONTROL (ctrl OR RNGA_CONTROL_CLEAR_INT)]"

subsection \<open>TX4939\<close>

text \<open>
  The source is busy while the start bit of the control and status register is set.
  \<open>tx_polled\<close> is to TX4939 what \<open>rnga_polled\<close> is to RNGA.
\<close>

definition tx_busy :: "64 word \<Rightarrow> bool" where
  "tx_busy v = (v AND TX4939_RNG_RCSR_ST \<noteq> 0)"

definition tx_polled :: "bool \<Rightarrow> 64 word \<Rightarrow> 64 word list \<Rightarrow> bool" where
  "tx_polled wait v0 vs \<longleftrightarrow>
     length vs \<le> 20 \<and> (vs \<noteq> [] \<longrightarrow> wait) \<and> (\<forall>x \<in> set (butlast (v0 # vs)). tx_busy x)"

text \<open>
  The events of \<open>rng_io_start\<close> and \<open>rng_io_end\<close>; of one readiness check that read
  \<open>v\<close>; of the re-checks that read \<open>vs\<close>; of the copy loop that read the words \<open>ws\<close>
  from the output registers \<open>i, i + 1, \<dots>\<close>; and of the whole drain, which ends with the
  write of the start bit.
\<close>

definition io_start_evs :: "bool \<Rightarrow> 'v event list" where
  "io_start_evs c64 = (if c64 then [] else [IrqDisable])"

definition io_end_evs :: "bool \<Rightarrow> 'v event list" where
  "io_end_evs c64 = (if c64 then [] else [IrqEnable])"

definition tx_check_evs :: "bool \<Rightarrow> 64 word \<Rightarrow> 64 word event list" where
  "tx_check_evs c64 v = io_start_evs c64 @ [MmioRead TX4939_RNG_RCSR v] @ io_end_evs c64"

definition tx_poll_evs :: "bool \<Rightarrow> 64 word list \<Rightarrow> 64 word event list" where
  "tx_poll_evs c64 vs = concat (map (\<lambda>v. Ndelay 450 # tx_check_evs c64 v) vs)"

definition tx_copy_evs :: "nat \<Rightarrow> 64 word list \<Rightarrow> 64 word event list" where
  "tx_copy_evs i ws = map (\<lambda>(k, w). MmioRead (TX4939_RNG_ROR k) w) (enumerate i ws)"

definition tx_drain_evs :: "bool \<Rightarrow> 64 word list \<Rightarrow> 64 word event list" where
  "tx_drain_evs c64 ws =
     io_start_evs c64 @ tx_copy_evs 0 ws
     @ [MmioWrite TX4939_RNG_RCSR TX4939_RNG_RCSR_ST] @ io_end_evs c64"

text \<open>
  The events of a read that found the source ready and drained it, and of one that gave
  up; the events of the reset and start sequence of \<open>tx4939_rng_probe\<close>, and the machine
  after that sequence.
\<close>

definition tx_read_evs ::
  "bool \<Rightarrow> 64 word \<Rightarrow> 64 word list \<Rightarrow> 64 word list \<Rightarrow> 64 word event list" where
  "tx_read_evs c64 v0 vs ws = tx_check_evs c64 v0 @ tx_poll_evs c64 vs @ tx_drain_evs c64 ws"

definition tx_idle_evs :: "bool \<Rightarrow> 64 word \<Rightarrow> 64 word list \<Rightarrow> 64 word event list" where
  "tx_idle_evs c64 v0 vs = tx_check_evs c64 v0 @ tx_poll_evs c64 vs"

definition tx_reset_evs :: "bool \<Rightarrow> 64 word event list" where
  "tx_reset_evs c64 =
     io_start_evs c64
     @ [MmioWrite TX4939_RNG_RCSR TX4939_RNG_RCSR_RST, MmioWrite TX4939_RNG_RCSR 0,
        MmioWrite TX4939_RNG_RCSR TX4939_RNG_RCSR_ST]
     @ io_end_evs c64"

definition tx_after_reset :: "bool \<Rightarrow> ('h, 64 word) dev \<Rightarrow> 'h tx \<Rightarrow> 'h tx" where
  "tx_after_reset c64 d s =
     rng_io_end c64
       (write_rng d TX4939_RNG_RCSR_ST TX4939_RNG_RCSR
         (write_rng d 0 TX4939_RNG_RCSR
           (write_rng d TX4939_RNG_RCSR_RST TX4939_RNG_RCSR (rng_io_start c64 s))))"

subsection \<open>ath9k\<close>

text \<open>
  The sample filter as the specification words it, to be compared with the scan loop.
  A pair \<open>(v1, v2)\<close> of 16-bit samples passes when neither sample is 0 or \<open>0xffff\<close>, the
  two differ, and \<open>v1\<close> differs from the sample \<open>prev\<close> that came before the pair.
  \<open>noise_words prev ps\<close> is the list of the words \<open>(v1 << 16) | v2\<close> of the pairs of
  \<open>ps\<close> that pass, each judged with the \<open>v2\<close> of the pair before it as \<open>prev\<close>;
  \<open>last_sample prev ps\<close> is the sample that precedes whatever comes after \<open>ps\<close>.
\<close>

definition pair_ok :: "32 word \<Rightarrow> 32 word \<Rightarrow> 32 word \<Rightarrow> bool" where
  "pair_ok prev v1 v2 \<longleftrightarrow>
     v1 \<noteq> 0 \<and> v1 \<noteq> 0xffff \<and> v2 \<noteq> 0 \<and> v2 \<noteq> 0xffff \<and> v1 \<noteq> v2 \<and> v1 \<noteq> prev"

fun noise_words :: "32 word \<Rightarrow> (32 word \<times> 32 word) list \<Rightarrow> 32 word list" where
  "noise_words prev [] = []"
| "noise_words prev ((v1, v2) # ps) =
     (if pair_ok prev v1 v2 then [push_bit 16 v1 OR v2] else []) @ noise_words v2 ps"

definition last_sample :: "32 word \<Rightarrow> (32 word \<times> 32 word) list \<Rightarrow> 32 word" where
  "last_sample prev ps = (if ps = [] then prev else snd (last ps))"

text \<open>
  \<open>samples rs\<close> are the sample pairs in the pairs \<open>rs\<close> of values read from the ADC
  register (their low 16 bits); \<open>ath_words maxb\<close> is the \<open>buf_size\<close> that
  \<open>ath9k_rng_read\<close> passes on for a capacity of \<open>maxb\<close> bytes.
\<close>

definition samples :: "(32 word \<times> 32 word) list \<Rightarrow> (32 word \<times> 32 word) list" where
  "samples rs = map (\<lambda>(r1, r2). (r1 AND 0xffff, r2 AND 0xffff)) rs"

definition ath_words :: "nat \<Rightarrow> 32 word" where
  "ath_words maxb = word_of_nat (maxb div 4)"

text \<open>
  The events of the loop of a scan that read the pairs \<open>rs\<close>, of the whole scan, and of
  the retries, each a delay and a scan.
\<close>

definition adc_evs :: "(32 word \<times> 32 word) list \<Rightarrow> 32 word event list" where
  "adc_evs rs =
     concat (map (\<lambda>(r1, r2). [RegRead AR_PHY_TST_ADC r1, RegRead AR_PHY_TST_ADC r2]) rs)"

definition scan_evs :: "(32 word \<times> 32 word) list \<Rightarrow> 32 word event list" where
  "scan_evs rs =
     [PsWakeup, RegRmwField AR_PHY_TEST AR_PHY_TEST_BBB_OBS_SEL 1,
      RegClrBit AR_PHY_TEST AR_PHY_TEST_RX_OBS_SEL_BIT5,
      RegRmwField AR_PHY_TEST_CTL_STATUS AR_PHY_TEST_CTL_RX_OBS_SEL 0]
     @ adc_evs rs @ [PsRestore]"

definition retry_evs :: "(32 word \<times> 32 word) list list \<Rightarrow> 32 word event list" where
  "retry_evs rss = concat (map (\<lambda>rs. Udelay 10 # scan_evs rs) rss)"

text \<open>
  \<open>store_words f j ws\<close> is the buffer after the scan loop has stored the words \<open>ws\<close>
  starting with the counter at \<open>j\<close>: the index is the signed value of the 32-bit counter,
  which wraps. For a counter that stays below \<open>2 ^ 31\<close> it is \<open>stored\<close>.
\<close>

fun store_words ::
  "(int \<Rightarrow> 32 word) \<Rightarrow> 32 word \<Rightarrow> 32 word list \<Rightarrow> int \<Rightarrow> 32 word" where
  "store_words f j [] = f"
| "store_words f j (w # ws) = store_words (f(sint j := w)) (j + 1) ws"

section \<open>A scripted device\<close>

text \<open>
  A device that answers the loads of a run from a list, one value per load (0 when the
  list is used up), and ignores stores and time. It serves to run the drivers on concrete
  register contents. \<open>boot h\<close> is the machine with device state \<open>h\<close>, an empty log and
  a zeroed buffer.
\<close>

definition pop :: "'v::zero list \<Rightarrow> 'v \<times> 'v list" where
  "pop h = (case h of [] \<Rightarrow> (0, []) | v # vs \<Rightarrow> (v, vs))"

definition script_dev :: "('v::zero list, 'v) dev" where
  "script_dev = \<lparr>dev_read = (\<lambda>off. pop), dev_write = (\<lambda>off v h. h), dev_delay = (\<lambda>n h. h)\<rparr>"

definition script_ops :: "32 word list ath_ops" where
  "script_ops =
     \<lparr>ps_wakeup = (\<lambda>h. h), ps_restore = (\<lambda>h. h), reg_rmw_field = (\<lambda>r f v h. h),
      reg_clr_bit = (\<lambda>r f h. h), reg_read = (\<lambda>r. pop), ath_delay = (\<lambda>n h. h)\<rparr>"

definition boot :: "'h \<Rightarrow> ('h, 'v::zero) mach" where
  "boot h = \<lparr>hw = h, log = [], mem = (\<lambda>i. 0)\<rparr>"

text \<open>
  RNGA scripts. A status word \<open>0x500\<close> reports level 5; a status word 8 carries the error
  interrupt bit. \<open>rnga_level5\<close>: ready at once, three words with clean checks.
  \<open>rnga_fault_third\<close>: ready at once, the check after the third word reports the error,
  the control register reads 3. \<open>rnga_empty\<close>: a status word with level 0.
  \<open>rnga_never_ready\<close>: every status word is 0.
\<close>

definition rnga_level5 :: "(32 word list, 32 word) mach" where
  "rnga_level5 = boot [0x500, 7, 0, 8, 0, 9, 0]"

definition rnga_fault_third :: "(32 word list, 32 word) mach" where
  "rnga_fault_third = boot [0x500, 7, 0, 8, 0, 9, 8, 3]"

definition rnga_empty :: "(32 word list, 32 word) mach" where
  "rnga_empty = boot [0x0f, 7, 7]"

definition rnga_never_ready :: "(32 word list, 32 word) mach" where
  "rnga_never_ready = boot []"

text \<open>
  TX4939 scripts. A status word 1 has the start bit set (busy), 0 has it clear.
  \<open>tx_ready\<close>: ready at once. \<open>tx_busy_now\<close>: busy at the first check.
  \<open>tx_never_ready\<close>: busy at all 21 checks. \<open>tx_two_cycles\<close>: ready at the second
  check, then ready at once for the next read. \<open>tx_second_stuck\<close>: ready at once, then
  busy for 21 checks. \<open>probe_ok\<close>: the kernel grants the memory and the mapping, and
  the registration succeeds.
\<close>

definition tx_ready :: "(64 word list, 64 word) mach" where
  "tx_ready = boot [0, 11, 22, 33]"

definition tx_busy_now :: "(64 word list, 64 word) mach" where
  "tx_busy_now = boot [1, 0, 5]"

definition tx_never_ready :: "(64 word list, 64 word) mach" where
  "tx_never_ready = boot (replicate 21 1)"

definition tx_two_cycles :: "(64 word list, 64 word) mach" where
  "tx_two_cycles = boot [1, 0, 11, 12, 13, 0, 21, 22, 23]"

definition tx_second_stuck :: "(64 word list, 64 word) mach" where
  "tx_second_stuck = boot ([0, 11, 12, 13] @ replicate 21 1)"

definition probe_ok :: probe_env where
  "probe_ok = \<lparr>kzalloc_ok = True, ioremap_err = None, hwrng_register_ret = 0\<rparr>"

text \<open>
  ath9k scripts: the values of successive reads of the ADC register, two per pair.
\<close>

definition ath_no_noise :: "(32 word list, 32 word) mach" where
  "ath_no_noise = boot []"

definition ath_stuck :: "(32 word list, 32 word) mach" where
  "ath_stuck = boot [5, 5, 0xffff, 6]"

definition ath_two_of_three :: "(32 word list, 32 word) mach" where
  "ath_two_of_three = boot [1, 2, 2, 3, 5, 6]"

definition ath_two_of_ten :: "(32 word list, 32 word) mach" where
  "ath_two_of_ten = boot [0, 9, 1, 2, 3, 3, 0xffff, 4, 4, 0, 7, 0xffff, 8, 9, 9, 5]"

definition ath_filter_demo :: "(32 word list, 32 word) mach" where
  "ath_filter_demo =
     boot [7, 2, 3, 3, 0xffff, 4, 2, 0, 7, 0xffff, 8, 9, 9, 5, 0, 6, 1, 2]"

text \<open>
  A device whose ADC register reads 1 and 2 in turn, without end: every pair \<open>(1, 2)\<close>
  passes the filter when the sample before it is not 1. Its state is whether the next
  read gives 2.
\<close>

definition alternating_ops :: "bool ath_ops" where
  "alternating_ops =
     \<lparr>ps_wakeup = (\<lambda>h. h), ps_restore = (\<lambda>h. h), reg_rmw_field = (\<lambda>r f v h. h),
      reg_clr_bit = (\<lambda>r f h. h), reg_read = (\<lambda>r h. (if h then 2 else 1, \<not> h)),
      ath_delay = (\<lambda>n h. h)\<rparr>"

definition ath_alternating :: "(bool, 32 word) mach" where
  "ath_alternating = boot False"

section \<open>The loops and the entry points, in terms of the access log\<close>

subsection \<open>RNGA\<close>

lemma mmio_read_cases:
  assumes "mmio_read d off s = (v, s')"
  shows "v = fst (dev_read d off (hw s))" and "hw s' = snd (dev_read d off (hw s))"
    and "log s' = log s @ [MmioRead off v]" and "mem s' = mem s"
  using assms by (auto simp: mmio_read_def split: prod.splits)

lemma udelay_simps [simp]:
  "log (udelay dl n s) = log s @ [Udelay n]" "mem (udelay dl n s) = mem s"
  "hw (udelay dl n s) = dl (1000 * n) (hw s)"
  by (simp_all add: udelay_def)

lemma mxc_rnga_wait_stop:
  "\<not> (wait \<and> present = 0 \<and> retries \<noteq> 0) \<Longrightarrow>
   mxc_rnga_wait d wait present retries s = (present, s)"
  by (subst mxc_rnga_wait.simps) auto

lemma mxc_rnga_wait_step:
  "wait \<and> present = 0 \<and> retries \<noteq> 0 \<Longrightarrow>
   raw_readl d RNGA_STATUS (udelay (dev_delay d) 10 s) = (v, s2) \<Longrightarrow>
   mxc_rnga_wait d wait present retries s =
     mxc_rnga_wait d wait (v AND RNGA_STATUS_LEVEL_MASK) (retries - 1) s2"
  by (subst mxc_rnga_wait.simps) simp

lemma mxc_rnga_wait_trace:
  "mxc_rnga_wait d wait p r s = (p', s') \<Longrightarrow>
   \<exists>vs. length vs \<le> r \<and> log s' = log s @ rnga_poll_evs vs \<and> mem s' = mem s \<and>
        p' = last (p # map rnga_level vs) \<and>
        (\<forall>x \<in> set (butlast (p # map rnga_level vs)). x = 0) \<and>
        (vs \<noteq> [] \<longrightarrow> wait) \<and> (wait \<and> p' = 0 \<longrightarrow> length vs = r)"
proof (induction d wait p r s arbitrary: p' s' rule: mxc_rnga_wait.induct)
  case (1 d wait present retries s)
  show ?case
  proof (cases "wait \<and> present = 0 \<and> retries \<noteq> 0")
    case False
    with "1.prems" have "p' = present" "s' = s"
      by (simp_all add: mxc_rnga_wait_stop)
    with False show ?thesis
      by (intro exI [of _ "[]"]) (auto simp: rnga_poll_evs_def)
  next
    case True
    define s1 where "s1 = udelay (dev_delay d) 10 s"
    obtain v s2 where rd: "raw_readl d RNGA_STATUS s1 = (v, s2)"
      by (cases "raw_readl d RNGA_STATUS s1")
    from "1.prems" mxc_rnga_wait_step [OF True rd [unfolded s1_def]] have rec:
      "mxc_rnga_wait d wait (v AND RNGA_STATUS_LEVEL_MASK) (retries - 1) s2 = (p', s')"
      by simp
    from "1.IH" [OF True s1_def refl rd [symmetric] rec, folded rnga_level_def]
    obtain vs where vs:
      "length vs \<le> retries - 1" "log s' = log s2 @ rnga_poll_evs vs" "mem s' = mem s2"
      "p' = last (rnga_level v # map rnga_level vs)"
      "\<forall>x \<in> set (butlast (rnga_level v # map rnga_level vs)). x = 0"
      "wait \<and> p' = 0 \<longrightarrow> length vs = retries - 1"
      by blast
    from rd have s2: "log s2 = log s @ [Udelay 10, MmioRead RNGA_STATUS v]" "mem s2 = mem s"
      by (simp_all add: raw_readl_def s1_def mmio_read_cases)
    show ?thesis
      using vs s2 True
      by (intro exI [of _ "v # vs"]) (auto simp: rnga_poll_evs_def)
  qed
qed

lemma mxc_rnga_drain_stop:
  "\<not> i < maxw \<Longrightarrow> mxc_rnga_drain d maxw i s = (False, i, s)"
  by (subst mxc_rnga_drain.simps) simp

lemma mxc_rnga_drain_step:
  "i < maxw \<Longrightarrow> raw_readl d RNGA_OUTPUT_FIFO s = (v, s1) \<Longrightarrow>
   raw_readl d RNGA_STATUS (s1\<lparr>mem := (mem s1)(int i := v)\<rparr>) = (st, s3) \<Longrightarrow>
   mxc_rnga_drain d maxw i s =
     (if rnga_fault st then (True, i, s3) else mxc_rnga_drain d maxw (i + 1) s3)"
  by (subst mxc_rnga_drain.simps) (simp add: rnga_fault_def)

lemma nth_shift_int:
  "int i < t \<Longrightarrow> (x # xs) ! nat (t - int i) = xs ! nat (t - int (i + 1))"
proof -
  assume "int i < t"
  then have "nat (t - int i) = Suc (nat (t - int (i + 1)))" by simp
  then show ?thesis by simp
qed

lemma mxc_rnga_drain_trace:
  "mxc_rnga_drain d n i s = (e, k, s') \<Longrightarrow> i \<le> n \<Longrightarrow>
   \<exists>ps. log s' = log s @ rnga_drain_evs ps \<and>
        (\<forall>p \<in> set (butlast ps). \<not> rnga_fault (snd p)) \<and>
        (e \<longrightarrow> ps \<noteq> [] \<and> rnga_fault (snd (last ps)) \<and> length ps = k - i + 1 \<and> i \<le> k \<and> k < n) \<and>
        (\<not> e \<longrightarrow> (\<forall>p \<in> set ps. \<not> rnga_fault (snd p)) \<and> length ps = n - i \<and> k = n) \<and>
        (\<forall>t. mem s' t =
           (if int i \<le> t \<and> t < int i + int (length ps) then fst (ps ! nat (t - int i))
            else mem s t))"
proof (induction d n i s arbitrary: e k s' rule: mxc_rnga_drain.induct)
  case (1 d maxw i s)
  show ?case
  proof (cases "i < maxw")
    case False
    with "1.prems" have "e = False" "k = i" "s' = s" "i = maxw"
      by (simp_all add: mxc_rnga_drain_stop)
    then show ?thesis
      by (intro exI [of _ "[]"]) (auto simp: rnga_drain_evs_def)
  next
    case True
    obtain v s1 where r1: "raw_readl d RNGA_OUTPUT_FIFO s = (v, s1)"
      by (cases "raw_readl d RNGA_OUTPUT_FIFO s")
    define s2 where "s2 = s1\<lparr>mem := (mem s1)(int i := v)\<rparr>"
    obtain st s3 where r2: "raw_readl d RNGA_STATUS s2 = (st, s3)"
      by (cases "raw_readl d RNGA_STATUS s2")
    from r1 r2 have s3: "log s3 = log s @ [MmioRead RNGA_OUTPUT_FIFO v, MmioRead RNGA_STATUS st]"
      "mem s3 = (mem s)(int i := v)"
      by (simp_all add: raw_readl_def s2_def mmio_read_cases)
    note step = mxc_rnga_drain_step [OF True r1 r2 [unfolded s2_def]]
    show ?thesis
    proof (cases "rnga_fault st")
      case True
      with step "1.prems" have "e" "k = i" "s' = s3" by simp_all
      with s3 True \<open>i < maxw\<close> show ?thesis
        by (intro exI [of _ "[(v, st)]"]) (auto simp: rnga_drain_evs_def)
    next
      case False
      with step "1.prems" have rec: "mxc_rnga_drain d maxw (i + 1) s3 = (e, k, s')"
        by simp
      have nf: "\<not> st AND RNGA_STATUS_ERROR_INT \<noteq> 0"
        using False by (simp add: rnga_fault_def)
      from True have le: "i + 1 \<le> maxw" by simp
      from "1.IH" [OF True refl r1 [symmetric] s2_def refl r2 [symmetric] refl nf rec le]
      obtain ps where ps:
        "log s' = log s3 @ rnga_drain_evs ps"
        "\<forall>p \<in> set (butlast ps). \<not> rnga_fault (snd p)"
        "e \<longrightarrow> ps \<noteq> [] \<and> rnga_fault (snd (last ps)) \<and> length ps = k - (i + 1) + 1 \<and> i + 1 \<le> k \<and> k < maxw"
        "\<not> e \<longrightarrow> (\<forall>p \<in> set ps. \<not> rnga_fault (snd p)) \<and> length ps = maxw - (i + 1) \<and> k = maxw"
        "\<forall>t. mem s' t =
           (if int (i + 1) \<le> t \<and> t < int (i + 1) + int (length ps)
            then fst (ps ! nat (t - int (i + 1))) else mem s3 t)"
        by blast
      have m: "mem s' t =
           (if int i \<le> t \<and> t < int i + int (length ((v, st) # ps))
            then fst (((v, st) # ps) ! nat (t - int i)) else mem s t)" for t
      proof (cases "t = int i")
        case True
        then show ?thesis using ps(5) s3(2) by simp
      next
        case False
        then show ?thesis using ps(5) s3(2) nth_shift_int [of i t "(v, st)" ps]
          by auto
      qed
      have "log s' = log s @ rnga_drain_evs ((v, st) # ps)"
        using ps(1) s3(1) by (simp add: rnga_drain_evs_def)
      moreover have "\<forall>p \<in> set (butlast ((v, st) # ps)). \<not> rnga_fault (snd p)"
        using ps(2) False by auto
      moreover have "e \<longrightarrow> (v, st) # ps \<noteq> [] \<and> rnga_fault (snd (last ((v, st) # ps))) \<and>
          length ((v, st) # ps) = k - i + 1 \<and> i \<le> k \<and> k < maxw"
        using ps(3) by auto
      moreover have "\<not> e \<longrightarrow> (\<forall>p \<in> set ((v, st) # ps). \<not> rnga_fault (snd p)) \<and>
          length ((v, st) # ps) = maxw - i \<and> k = maxw"
        using ps(4) False True by auto
      ultimately show ?thesis using m
        by (intro exI [of _ "(v, st) # ps"]) blast
    qed
  qed
qed

lemma mxc_rnga_read_cases [consumes 2, case_names idle full fault]:
  assumes run: "mxc_rnga_read d maxb wait s = (r, s')" and cap: "4 \<le> maxb"
  obtains
    (idle) v0 vs where
      "v0 = fst (dev_read d RNGA_STATUS (hw s))" "rnga_polled wait v0 vs"
      "rnga_level (last (v0 # vs)) = 0" "wait \<longrightarrow> length vs = 20"
      "r = 0" "log s' = log s @ MmioRead RNGA_STATUS v0 # rnga_poll_evs vs"
      "mem s' = mem s"
  | (full) v0 vs ps where
      "v0 = fst (dev_read d RNGA_STATUS (hw s))" "rnga_polled wait v0 vs"
      "rnga_level (last (v0 # vs)) \<noteq> 0"
      "length ps = min (rnga_avail (last (v0 # vs))) (maxb div 4)"
      "\<forall>p \<in> set ps. \<not> rnga_fault (snd p)"
      "r = int (length ps * 4)"
      "log s' = log s @ MmioRead RNGA_STATUS v0 # rnga_poll_evs vs @ rnga_drain_evs ps"
      "mem s' = stored (mem s) (map fst ps)"
  | (fault) v0 vs ps w st ctrl where
      "v0 = fst (dev_read d RNGA_STATUS (hw s))" "rnga_polled wait v0 vs"
      "rnga_level (last (v0 # vs)) \<noteq> 0"
      "length ps < min (rnga_avail (last (v0 # vs))) (maxb div 4)"
      "\<forall>p \<in> set ps. \<not> rnga_fault (snd p)" "rnga_fault st"
      "r = int (length ps * 4)"
      "log s' = log s @ MmioRead RNGA_STATUS v0 # rnga_poll_evs vs @ rnga_drain_evs (ps @ [(w, st)])
         @ [MmioRead RNGA_CONTROL ctrl, MmioWrite RNGA_CONTROL (ctrl OR RNGA_CONTROL_CLEAR_INT)]"
      "mem s' = stored (mem s) (map fst ps @ [w])"
proof -
  obtain v0 s0 where r0: "raw_readl d RNGA_STATUS s = (v0, s0)"
    by (cases "raw_readl d RNGA_STATUS s")
  then have v0: "v0 = fst (dev_read d RNGA_STATUS (hw s))"
    and s0: "log s0 = log s @ [MmioRead RNGA_STATUS v0]" "mem s0 = mem s"
    by (simp_all add: raw_readl_def mmio_read_cases)
  obtain p s1 where w: "mxc_rnga_wait d wait (v0 AND RNGA_STATUS_LEVEL_MASK) 20 s0 = (p, s1)"
    by (cases "mxc_rnga_wait d wait (v0 AND RNGA_STATUS_LEVEL_MASK) 20 s0")
  from mxc_rnga_wait_trace [OF w, folded rnga_level_def] obtain vs where vs:
    "length vs \<le> 20" "log s1 = log s0 @ rnga_poll_evs vs" "mem s1 = mem s0"
    "p = last (rnga_level v0 # map rnga_level vs)"
    "\<forall>x \<in> set (butlast (rnga_level v0 # map rnga_level vs)). x = 0"
    "vs \<noteq> [] \<longrightarrow> wait" "wait \<and> p = 0 \<longrightarrow> length vs = 20"
    by blast
  have "last (rnga_level v0 # map rnga_level vs) = rnga_level (last (v0 # vs))"
    using last_map [of "v0 # vs" rnga_level] by (simp del: last.simps)
  with vs(4) have p: "p = rnga_level (last (v0 # vs))"
    by simp
  have "butlast (rnga_level v0 # map rnga_level vs) = map rnga_level (butlast (v0 # vs))"
    by (simp add: map_butlast del: butlast.simps)
  with vs(5) have "\<forall>x \<in> set (butlast (v0 # vs)). rnga_level x = 0"
    by (simp del: butlast.simps)
  with vs have polled: "rnga_polled wait v0 vs"
    by (simp add: rnga_polled_def)
  show thesis
  proof (cases "p = 0")
    case True
    with run cap r0 w have "r = 0" "s' = s1"
      by (simp_all add: mxc_rnga_read_def)
    with True p polled vs s0 v0 show thesis
      by (intro idle [of v0 vs]) simp_all
  next
    case False
    define n where "n = min (unat (drop_bit 8 p)) (maxb div 4)"
    obtain e k s2 where dr: "mxc_rnga_drain d n 0 s1 = (e, k, s2)"
      by (cases "mxc_rnga_drain d n 0 s1") auto
    from mxc_rnga_drain_trace [OF dr] obtain ps where ps:
      "log s2 = log s1 @ rnga_drain_evs ps"
      "\<forall>p \<in> set (butlast ps). \<not> rnga_fault (snd p)"
      "e \<longrightarrow> ps \<noteq> [] \<and> rnga_fault (snd (last ps)) \<and> length ps = k - 0 + 1 \<and> 0 \<le> k \<and> k < n"
      "\<not> e \<longrightarrow> (\<forall>p \<in> set ps. \<not> rnga_fault (snd p)) \<and> length ps = n - 0 \<and> k = n"
      "\<forall>t. mem s2 t =
         (if int 0 \<le> t \<and> t < int 0 + int (length ps) then fst (ps ! nat (t - int 0))
          else mem s1 t)"
      by auto
    have mem2: "mem s2 = stored (mem s) (map fst ps)"
      using ps(5) vs(3) s0(2) by (auto simp: stored_def fun_eq_iff)
    have n: "n = min (rnga_avail (last (v0 # vs))) (maxb div 4)"
      by (simp add: n_def p rnga_avail_def rnga_level_def and.assoc)
    show thesis
    proof (cases e)
      case False
      with run cap r0 w dr \<open>p \<noteq> 0\<close> have "r = int (k * 4)" "s' = s2"
        by (simp_all add: mxc_rnga_read_def n_def)
      with False ps vs s0 v0 polled p \<open>p \<noteq> 0\<close> n mem2 show thesis
        by (intro full [of v0 vs ps]) simp_all
    next
      case True
      obtain ctrl s3 where r3: "raw_readl d RNGA_CONTROL s2 = (ctrl, s3)"
        by (cases "raw_readl d RNGA_CONTROL s2")
      then have s3: "log s3 = log s2 @ [MmioRead RNGA_CONTROL ctrl]" "mem s3 = mem s2"
        by (simp_all add: raw_readl_def mmio_read_cases)
      define s4 where "s4 = raw_writel d (ctrl OR RNGA_CONTROL_CLEAR_INT) RNGA_CONTROL s3"
      have s4: "log s4 = log s3 @ [MmioWrite RNGA_CONTROL (ctrl OR RNGA_CONTROL_CLEAR_INT)]"
        "mem s4 = mem s3"
        by (simp_all add: s4_def raw_writel_def mmio_write_def)
      from True run cap r0 w dr r3 \<open>p \<noteq> 0\<close> have res: "r = int (k * 4)" "s' = s4"
        by (simp_all add: mxc_rnga_read_def n_def s4_def)
      from True ps(3) obtain qs w st where qs: "ps = qs @ [(w, st)]"
        by (metis surj_pair rev_exhaust)
      with True ps have q: "length qs = k" "k < n" "rnga_fault st"
        "\<forall>p \<in> set qs. \<not> rnga_fault (snd p)"
        by auto
      show thesis
        using q res qs ps(1) vs s0 s3 s4 v0 polled p \<open>p \<noteq> 0\<close> n mem2
        by (intro fault [of v0 vs qs st w ctrl]) simp_all
    qed
  qed
qed

subsection \<open>TX4939\<close>

lemma rng_io_simps [simp]:
  "log (rng_io_start c64 s) = log s @ io_start_evs c64" "mem (rng_io_start c64 s) = mem s"
  "hw (rng_io_start c64 s) = hw s"
  "log (rng_io_end c64 s) = log s @ io_end_evs c64" "mem (rng_io_end c64 s) = mem s"
  "hw (rng_io_end c64 s) = hw s"
  by (simp_all add: rng_io_start_def rng_io_end_def io_start_evs_def io_end_evs_def)

lemma ndelay_simps [simp]:
  "log (ndelay dl n s) = log s @ [Ndelay n]" "mem (ndelay dl n s) = mem s"
  "hw (ndelay dl n s) = dl n (hw s)"
  by (simp_all add: ndelay_def)

lemma mmio_write_simps [simp]:
  "log (mmio_write d v off s) = log s @ [MmioWrite off v]" "mem (mmio_write d v off s) = mem s"
  "hw (mmio_write d v off s) = dev_write d off v (hw s)"
  by (simp_all add: mmio_write_def)

lemma tx4939_rng_wait_stop:
  "\<not> (wait \<and> \<not> present \<and> retries \<noteq> 0) \<Longrightarrow>
   tx4939_rng_wait c64 d wait present retries s = (present, s)"
  by (subst tx4939_rng_wait.simps) auto

lemma tx4939_rng_wait_step:
  "wait \<and> \<not> present \<and> retries \<noteq> 0 \<Longrightarrow>
   read_rng d TX4939_RNG_RCSR (rng_io_start c64 (ndelay (dev_delay d) (90 * 5) s)) = (v, s3) \<Longrightarrow>
   tx4939_rng_wait c64 d wait present retries s =
     tx4939_rng_wait c64 d wait (\<not> tx_busy v) (retries - 1) (rng_io_end c64 s3)"
  by (subst tx4939_rng_wait.simps) (simp add: tx_busy_def)

lemma tx4939_rng_wait_trace:
  "tx4939_rng_wait c64 d wait p r s = (p', s') \<Longrightarrow>
   \<exists>vs. length vs \<le> r \<and> log s' = log s @ tx_poll_evs c64 vs \<and> mem s' = mem s \<and>
        p' = last (p # map (\<lambda>v. \<not> tx_busy v) vs) \<and>
        (\<forall>x \<in> set (butlast (p # map (\<lambda>v. \<not> tx_busy v) vs)). \<not> x) \<and>
        (vs \<noteq> [] \<longrightarrow> wait) \<and> (wait \<and> \<not> p' \<longrightarrow> length vs = r)"
proof (induction r arbitrary: p s)
  case 0
  then have "p' = p" "s' = s"
    by (simp_all add: tx4939_rng_wait_stop)
  then show ?case
    by (intro exI [of _ "[]"]) (simp add: tx_poll_evs_def)
next
  case (Suc r)
  show ?case
  proof (cases "wait \<and> \<not> p")
    case False
    with Suc.prems have "p' = p" "s' = s"
      by (simp_all add: tx4939_rng_wait_stop)
    with False show ?thesis
      by (intro exI [of _ "[]"]) (auto simp: tx_poll_evs_def)
  next
    case True
    obtain v s3 where rd:
      "read_rng d TX4939_RNG_RCSR (rng_io_start c64 (ndelay (dev_delay d) (90 * 5) s)) = (v, s3)"
      by (cases "read_rng d TX4939_RNG_RCSR (rng_io_start c64 (ndelay (dev_delay d) (90 * 5) s))")
    then have s3: "log s3 = log s @ Ndelay 450 # io_start_evs c64 @ [MmioRead TX4939_RNG_RCSR v]"
      "mem s3 = mem s"
      by (simp_all add: read_rng_def mmio_read_cases)
    from True have c: "wait \<and> \<not> p \<and> Suc r \<noteq> 0" by simp
    from Suc.prems tx4939_rng_wait_step [OF c rd] have rec:
      "tx4939_rng_wait c64 d wait (\<not> tx_busy v) r (rng_io_end c64 s3) = (p', s')"
      by simp
    from Suc.IH [OF rec] obtain vs where vs:
      "length vs \<le> r" "log s' = log (rng_io_end c64 s3) @ tx_poll_evs c64 vs"
      "mem s' = mem (rng_io_end c64 s3)"
      "p' = last ((\<not> tx_busy v) # map (\<lambda>v. \<not> tx_busy v) vs)"
      "\<forall>x \<in> set (butlast ((\<not> tx_busy v) # map (\<lambda>v. \<not> tx_busy v) vs)). \<not> x"
      "wait \<and> \<not> p' \<longrightarrow> length vs = r"
      by blast
    show ?thesis
      using vs s3 True
      by (intro exI [of _ "v # vs"]) (auto simp: tx_poll_evs_def tx_check_evs_def)
  qed
qed

lemma tx4939_rng_copy_stop:
  "\<not> i < maxw \<Longrightarrow> tx4939_rng_copy d maxw i s = (i, s)"
  by (subst tx4939_rng_copy.simps) simp

lemma tx4939_rng_copy_step:
  "i < maxw \<Longrightarrow> read_rng d (TX4939_RNG_ROR i) s = (v, s1) \<Longrightarrow>
   tx4939_rng_copy d maxw i s =
     tx4939_rng_copy d maxw (i + 1) (s1\<lparr>mem := (mem s1)(int i := v)\<rparr>)"
  by (subst tx4939_rng_copy.simps) simp

lemma tx4939_rng_copy_trace:
  "tx4939_rng_copy d n i s = (k, s') \<Longrightarrow> i \<le> n \<Longrightarrow>
   \<exists>ws. length ws = n - i \<and> k = n \<and> log s' = log s @ tx_copy_evs i ws \<and>
        (\<forall>t. mem s' t =
           (if int i \<le> t \<and> t < int i + int (length ws) then ws ! nat (t - int i)
            else mem s t))"
proof (induction "n - i" arbitrary: i s)
  case 0
  then have "k = i" "s' = s" "i = n"
    by (simp_all add: tx4939_rng_copy_stop)
  then show ?case
    by (intro exI [of _ "[]"]) (auto simp: tx_copy_evs_def)
next
  case (Suc m)
  then have lt: "i < n" by simp
  obtain v s1 where rd: "read_rng d (TX4939_RNG_ROR i) s = (v, s1)"
    by (cases "read_rng d (TX4939_RNG_ROR i) s")
  then have s1: "log s1 = log s @ [MmioRead (TX4939_RNG_ROR i) v]" "mem s1 = mem s"
    by (simp_all add: read_rng_def mmio_read_cases)
  from Suc.prems tx4939_rng_copy_step [OF lt rd] have rec:
    "tx4939_rng_copy d n (i + 1) (s1\<lparr>mem := (mem s1)(int i := v)\<rparr>) = (k, s')"
    by simp
  from Suc.hyps(2) lt have m: "m = n - (i + 1)" and le: "i + 1 \<le> n" by simp_all
  from Suc.hyps(1) [OF m rec le] obtain ws where ws:
    "length ws = n - (i + 1)" "k = n"
    "log s' = log (s1\<lparr>mem := (mem s1)(int i := v)\<rparr>) @ tx_copy_evs (i + 1) ws"
    "\<forall>t. mem s' t =
       (if int (i + 1) \<le> t \<and> t < int (i + 1) + int (length ws)
        then ws ! nat (t - int (i + 1)) else mem (s1\<lparr>mem := (mem s1)(int i := v)\<rparr>) t)"
    by blast
  have mm: "mem s' t =
       (if int i \<le> t \<and> t < int i + int (length (v # ws)) then (v # ws) ! nat (t - int i)
        else mem s t)" for t
  proof (cases "t = int i")
    case True
    then show ?thesis using ws(4) s1(2) by simp
  next
    case False
    then show ?thesis using ws(4) s1(2) nth_shift_int [of i t v ws]
      by auto
  qed
  have "log s' = log s @ tx_copy_evs i (v # ws)"
    using ws(3) s1(1) by (simp add: tx_copy_evs_def)
  moreover have "length (v # ws) = n - i"
    using ws(1) lt by simp
  ultimately show ?case using mm ws(2)
    by (intro exI [of _ "v # ws"]) blast
qed

lemma tx4939_rng_read_cases [consumes 2, case_names idle full]:
  assumes run: "tx4939_rng_read c64 d maxb wait s = (r, s')" and cap: "8 \<le> maxb"
  obtains
    (idle) v0 vs where
      "v0 = fst (dev_read d TX4939_RNG_RCSR (hw s))" "tx_polled wait v0 vs"
      "tx_busy (last (v0 # vs))" "wait \<longrightarrow> length vs = 20"
      "r = 0" "log s' = log s @ tx_check_evs c64 v0 @ tx_poll_evs c64 vs"
      "mem s' = mem s"
  | (full) v0 vs ws where
      "v0 = fst (dev_read d TX4939_RNG_RCSR (hw s))" "tx_polled wait v0 vs"
      "\<not> tx_busy (last (v0 # vs))"
      "length ws = min 3 (maxb div 8)"
      "r = int (length ws * 8)"
      "log s' = log s @ tx_check_evs c64 v0 @ tx_poll_evs c64 vs @ io_start_evs c64
         @ tx_copy_evs 0 ws @ [MmioWrite TX4939_RNG_RCSR TX4939_RNG_RCSR_ST] @ io_end_evs c64"
      "mem s' = stored (mem s) ws"
proof -
  obtain v0 s1 where r0: "read_rng d TX4939_RNG_RCSR (rng_io_start c64 s) = (v0, s1)"
    by (cases "read_rng d TX4939_RNG_RCSR (rng_io_start c64 s)")
  note rc = mmio_read_cases [OF r0 [unfolded read_rng_def]]
  have v0: "v0 = fst (dev_read d TX4939_RNG_RCSR (hw s))"
    and s1: "log s1 = log s @ io_start_evs c64 @ [MmioRead TX4939_RNG_RCSR v0]" "mem s1 = mem s"
    using rc by simp_all
  obtain p s3 where w:
    "tx4939_rng_wait c64 d wait (\<not> tx_busy v0) 20 (rng_io_end c64 s1) = (p, s3)"
    by (cases "tx4939_rng_wait c64 d wait (\<not> tx_busy v0) 20 (rng_io_end c64 s1)")
  from tx4939_rng_wait_trace [OF w] obtain vs where vs:
    "length vs \<le> 20" "log s3 = log (rng_io_end c64 s1) @ tx_poll_evs c64 vs"
    "mem s3 = mem (rng_io_end c64 s1)"
    "p = last ((\<not> tx_busy v0) # map (\<lambda>v. \<not> tx_busy v) vs)"
    "\<forall>x \<in> set (butlast ((\<not> tx_busy v0) # map (\<lambda>v. \<not> tx_busy v) vs)). \<not> x"
    "vs \<noteq> [] \<longrightarrow> wait" "wait \<and> \<not> p \<longrightarrow> length vs = 20"
    by blast
  have "last ((\<not> tx_busy v0) # map (\<lambda>v. \<not> tx_busy v) vs) = (\<not> tx_busy (last (v0 # vs)))"
    using last_map [of "v0 # vs" "\<lambda>v. \<not> tx_busy v"] by (simp del: last.simps)
  with vs(4) have p: "p = (\<not> tx_busy (last (v0 # vs)))"
    by simp
  have "butlast ((\<not> tx_busy v0) # map (\<lambda>v. \<not> tx_busy v) vs)
      = map (\<lambda>v. \<not> tx_busy v) (butlast (v0 # vs))"
    by (simp add: map_butlast del: butlast.simps)
  with vs(5) have "\<forall>x \<in> set (butlast (v0 # vs)). tx_busy x"
    by (simp del: butlast.simps)
  with vs have polled: "tx_polled wait v0 vs"
    by (simp add: tx_polled_def)
  have log3: "log s3 = log s @ tx_check_evs c64 v0 @ tx_poll_evs c64 vs"
    using vs(2) s1 by (simp add: tx_check_evs_def)
  have run': "tx4939_rng_read c64 d maxb wait s =
      (if \<not> p then (0, s3)
       else let (i, s5) = tx4939_rng_copy d (min 3 (maxb div 8)) 0 (rng_io_start c64 s3)
            in (int (i * 8),
                rng_io_end c64 (write_rng d TX4939_RNG_RCSR_ST TX4939_RNG_RCSR s5)))"
    using cap r0 w by (simp add: tx4939_rng_read_def tx_busy_def)
  show thesis
  proof (cases p)
    case False
    with run run' have "r = 0" "s' = s3"
      by simp_all
    with False p polled vs s1 v0 log3 show thesis
      by (intro idle [of v0 vs]) simp_all
  next
    case True
    obtain k s5 where cp:
      "tx4939_rng_copy d (min 3 (maxb div 8)) 0 (rng_io_start c64 s3) = (k, s5)"
      by (cases "tx4939_rng_copy d (min 3 (maxb div 8)) 0 (rng_io_start c64 s3)")
    from tx4939_rng_copy_trace [OF cp] obtain ws where ws:
      "length ws = min 3 (maxb div 8) - 0" "k = min 3 (maxb div 8)"
      "log s5 = log (rng_io_start c64 s3) @ tx_copy_evs 0 ws"
      "\<forall>t. mem s5 t =
         (if int 0 \<le> t \<and> t < int 0 + int (length ws) then ws ! nat (t - int 0)
          else mem (rng_io_start c64 s3) t)"
      by auto
    from True run run' cp have res: "r = int (k * 8)"
      "s' = rng_io_end c64 (write_rng d TX4939_RNG_RCSR_ST TX4939_RNG_RCSR s5)"
      by simp_all
    have mem5: "mem s' = stored (mem s) ws"
      using ws(4) vs(3) s1(2) res(2)
      by (auto simp: stored_def fun_eq_iff write_rng_def)
    have log5: "log s' = log s @ tx_check_evs c64 v0 @ tx_poll_evs c64 vs @ io_start_evs c64
         @ tx_copy_evs 0 ws @ [MmioWrite TX4939_RNG_RCSR TX4939_RNG_RCSR_ST] @ io_end_evs c64"
      using ws(3) log3 res(2) by (simp add: write_rng_def)
    show thesis
      using True p polled v0 ws(1,2) res(1) log5 mem5
      by (intro full [of v0 vs ws]) simp_all
  qed
qed

subsection \<open>ath9k\<close>

lemma samples_simps [simp]:
  "samples [] = []" "samples (xs @ ys) = samples xs @ samples ys"
  "length (samples xs) = length xs"
  by (simp_all add: samples_def)

lemma word_inc_unat: "i < (n::32 word) \<Longrightarrow> unat (i + 1) = Suc (unat i)"
proof -
  assume "i < n"
  then have "unat i < unat n" by (simp add: word_less_nat_alt)
  moreover have "unat n < 2 ^ 32" using unsigned_less [of n] by simp
  ultimately have "unat i + unat (1::32 word) < 2 ^ LENGTH(32)" by simp
  then have "unat (i + 1) = unat i + unat (1::32 word)" by (simp only: unat_add_lem)
  then show ?thesis by simp
qed

lemma REG_READ_cases:
  assumes "REG_READ ops r m = (v, m')"
  shows "log m' = log m @ [RegRead r v]" and "mem m' = mem m"
  using assms by (auto simp: REG_READ_def split: prod.splits)

lemma ath9k_rng_scan_stop:
  "\<not> i < buf_size \<Longrightarrow> ath9k_rng_scan ops buf_size i j rlast m = (j, rlast, m)"
  by (subst ath9k_rng_scan.simps) simp

lemma ath9k_rng_scan_step:
  "i < buf_size \<Longrightarrow> REG_READ ops AR_PHY_TST_ADC m = (r1, m1) \<Longrightarrow>
   REG_READ ops AR_PHY_TST_ADC m1 = (r2, m2) \<Longrightarrow>
   v1 = r1 AND 0xffff \<Longrightarrow> v2 = r2 AND 0xffff \<Longrightarrow>
   ath9k_rng_scan ops buf_size i j rlast m =
     (if pair_ok rlast v1 v2
      then ath9k_rng_scan ops buf_size (i + 1) (j + 1) v2
             (m2\<lparr>mem := (mem m2)(sint j := push_bit 16 v1 OR v2)\<rparr>)
      else ath9k_rng_scan ops buf_size (i + 1) j v2 m2)"
  by (subst ath9k_rng_scan.simps) (auto simp: pair_ok_def Let_def)

lemma store_words_append:
  "store_words f j (ws @ vs) = store_words (store_words f j ws) (j + word_of_nat (length ws)) vs"
  by (induction ws arbitrary: f j) (simp_all add: add.assoc)

lemma ath9k_rng_scan_trace:
  "ath9k_rng_scan ops n i j rl m = (j', rl', m') \<Longrightarrow>
   \<exists>rs. length rs = unat n - unat i \<and> log m' = log m @ adc_evs rs \<and>
        j' = j + word_of_nat (length (noise_words rl (samples rs))) \<and>
        rl' = last_sample rl (samples rs) \<and>
        mem m' = store_words (mem m) j (noise_words rl (samples rs))"
proof (induction "unat n - unat i" arbitrary: i j rl m)
  case 0
  then have "\<not> i < n" by (simp add: word_less_nat_alt)
  with "0.prems" have "j' = j" "rl' = rl" "m' = m"
    by (simp_all add: ath9k_rng_scan_stop)
  with 0 show ?case
    by (intro exI [of _ "[]"]) (simp add: adc_evs_def samples_def last_sample_def)
next
  case (Suc k)
  then have lt: "i < n" by (simp add: word_less_nat_alt)
  then have inc: "unat (i + 1) = Suc (unat i)" by (rule word_inc_unat)
  with Suc.hyps(2) have k: "k = unat n - unat (i + 1)" by simp
  obtain r1 m1 where rd1: "REG_READ ops AR_PHY_TST_ADC m = (r1, m1)"
    by (cases "REG_READ ops AR_PHY_TST_ADC m")
  obtain r2 m2 where rd2: "REG_READ ops AR_PHY_TST_ADC m1 = (r2, m2)"
    by (cases "REG_READ ops AR_PHY_TST_ADC m1")
  from rd1 rd2 have m2: "log m2 = log m @ [RegRead AR_PHY_TST_ADC r1, RegRead AR_PHY_TST_ADC r2]"
    "mem m2 = mem m"
    by (simp_all add: REG_READ_cases)
  define v1 where "v1 = r1 AND 0xffff"
  define v2 where "v2 = r2 AND 0xffff"
  note step = ath9k_rng_scan_step [OF lt rd1 rd2 v1_def v2_def, of j rl]
  show ?case
  proof (cases "pair_ok rl v1 v2")
    case True
    define m3 where "m3 = m2\<lparr>mem := (mem m2)(sint j := push_bit 16 v1 OR v2)\<rparr>"
    from True step Suc.prems have rec: "ath9k_rng_scan ops n (i + 1) (j + 1) v2 m3 = (j', rl', m')"
      by (simp add: m3_def)
    from Suc.hyps(1) [OF k rec] obtain rs where rs:
      "length rs = unat n - unat (i + 1)" "log m' = log m3 @ adc_evs rs"
      "j' = j + 1 + word_of_nat (length (noise_words v2 (samples rs)))"
      "rl' = last_sample v2 (samples rs)"
      "mem m' = store_words (mem m3) (j + 1) (noise_words v2 (samples rs))"
      by blast
    have sm: "samples ((r1, r2) # rs) = (v1, v2) # samples rs"
      by (simp add: samples_def v1_def v2_def)
    show ?thesis
      using rs m2 True inc Suc.hyps(2) sm
      by (intro exI [of _ "(r1, r2) # rs"])
        (simp add: m3_def adc_evs_def last_sample_def samples_def)
  next
    case False
    from False step Suc.prems have rec: "ath9k_rng_scan ops n (i + 1) j v2 m2 = (j', rl', m')"
      by simp
    from Suc.hyps(1) [OF k rec] obtain rs where rs:
      "length rs = unat n - unat (i + 1)" "log m' = log m2 @ adc_evs rs"
      "j' = j + word_of_nat (length (noise_words v2 (samples rs)))"
      "rl' = last_sample v2 (samples rs)"
      "mem m' = store_words (mem m2) j (noise_words v2 (samples rs))"
      by blast
    have sm: "samples ((r1, r2) # rs) = (v1, v2) # samples rs"
      by (simp add: samples_def v1_def v2_def)
    show ?thesis
      using rs m2 False inc Suc.hyps(2) sm
      by (intro exI [of _ "(r1, r2) # rs"])
        (simp add: adc_evs_def last_sample_def samples_def)
  qed
qed

lemma ath_prim_simps [simp]:
  "log (ath9k_ps_wakeup ops m) = log m @ [PsWakeup]" "mem (ath9k_ps_wakeup ops m) = mem m"
  "log (ath9k_ps_restore ops m) = log m @ [PsRestore]" "mem (ath9k_ps_restore ops m) = mem m"
  "log (REG_RMW_FIELD ops r f v m) = log m @ [RegRmwField r f v]"
  "mem (REG_RMW_FIELD ops r f v m) = mem m"
  "log (REG_CLR_BIT ops r f m) = log m @ [RegClrBit r f]" "mem (REG_CLR_BIT ops r f m) = mem m"
  by (simp_all add: ath9k_ps_wakeup_def ath9k_ps_restore_def REG_RMW_FIELD_def REG_CLR_BIT_def)

lemma ath9k_rng_data_read_trace:
  assumes "ath9k_rng_data_read ops n sc m = (j, sc', m')"
  shows "\<exists>rs. length rs = unat n \<and> log m' = log m @ scan_evs rs \<and>
        j = word_of_nat (length (noise_words (rng_last sc) (samples rs))) \<and>
        rng_last sc' = last_sample (rng_last sc) (samples rs) \<and>
        mem m' = store_words (mem m) 0 (noise_words (rng_last sc) (samples rs))"
proof -
  define m4 where "m4 =
    REG_RMW_FIELD ops AR_PHY_TEST_CTL_STATUS AR_PHY_TEST_CTL_RX_OBS_SEL 0
      (REG_CLR_BIT ops AR_PHY_TEST AR_PHY_TEST_RX_OBS_SEL_BIT5
        (REG_RMW_FIELD ops AR_PHY_TEST AR_PHY_TEST_BBB_OBS_SEL 1 (ath9k_ps_wakeup ops m)))"
  obtain j5 rl m5 where sc: "ath9k_rng_scan ops n 0 0 (rng_last sc) m4 = (j5, rl, m5)"
    by (cases "ath9k_rng_scan ops n 0 0 (rng_last sc) m4") auto
  with assms have res: "j = j5" "sc' = sc\<lparr>rng_last := rl\<rparr>" "m' = ath9k_ps_restore ops m5"
    by (simp_all add: ath9k_rng_data_read_def m4_def Let_def)
  from ath9k_rng_scan_trace [OF sc] obtain rs where rs:
    "length rs = unat n - unat (0::32 word)" "log m5 = log m4 @ adc_evs rs"
    "j5 = 0 + word_of_nat (length (noise_words (rng_last sc) (samples rs)))"
    "rl = last_sample (rng_last sc) (samples rs)"
    "mem m5 = store_words (mem m4) 0 (noise_words (rng_last sc) (samples rs))"
    by blast
  show ?thesis
    using rs res
    by (intro exI [of _ rs]) (simp add: m4_def scan_evs_def)
qed

lemma noise_words_append:
  "noise_words prev (ps @ qs) = noise_words prev ps @ noise_words (last_sample prev ps) qs"
  by (induction prev ps rule: noise_words.induct) (simp_all add: last_sample_def)

lemma last_sample_append:
  "last_sample prev (ps @ qs) = last_sample (last_sample prev ps) qs"
  by (simp add: last_sample_def)

lemma length_noise_words: "length (noise_words prev ps) \<le> length ps"
  by (induction prev ps rule: noise_words.induct) simp_all

lemma unat_noise_count:
  "length ps = unat (n::32 word) \<Longrightarrow>
   unat (word_of_nat (length (noise_words prev ps)) :: 32 word) = length (noise_words prev ps)"
proof -
  assume "length ps = unat n"
  then have "length (noise_words prev ps) \<le> unat n"
    using length_noise_words [of prev ps] by simp
  moreover have "unat n < 2 ^ 32" using unsigned_less [of n] by simp
  ultimately have "length (noise_words prev ps) < 2 ^ LENGTH(32)" by simp
  then show ?thesis by (simp add: unat_of_nat)
qed

lemma ath9k_rng_retry_stop:
  "\<not> (wait \<and> u32s_read = 0 \<and> retries \<noteq> 0) \<Longrightarrow>
   ath9k_rng_retry ops maxb wait u32s_read retries sc m = (u32s_read, sc, m)"
  by (subst ath9k_rng_retry.simps) auto

lemma ath9k_rng_retry_step:
  "wait \<and> u32s_read = 0 \<and> retries \<noteq> 0 \<Longrightarrow>
   ath9k_rng_data_read ops (word_of_nat (maxb div 4)) sc (udelay (ath_delay ops) 10 m)
     = (j, sc1, m2) \<Longrightarrow>
   ath9k_rng_retry ops maxb wait u32s_read retries sc m =
     ath9k_rng_retry ops maxb wait j (retries - 1) sc1 m2"
  by (subst ath9k_rng_retry.simps) simp

lemma ath9k_rng_retry_trace:
  "ath9k_rng_retry ops maxb wait j0 r sc m = (j, sc', m') \<Longrightarrow>
   \<exists>rss. length rss \<le> r \<and> (\<forall>rs \<in> set rss. length rs = unat (word_of_nat (maxb div 4) :: 32 word)) \<and>
        log m' = log m @ retry_evs rss \<and>
        (rss = [] \<longrightarrow> j = j0 \<and> sc' = sc \<and> m' = m) \<and>
        (rss \<noteq> [] \<longrightarrow> wait \<and> j0 = 0 \<and>
           noise_words (rng_last sc) (samples (concat (butlast rss))) = [] \<and>
           unat j = length (noise_words (rng_last sc) (samples (concat rss))) \<and>
           mem m' = store_words (mem m) 0 (noise_words (rng_last sc) (samples (concat rss)))) \<and>
        rng_last sc' = last_sample (rng_last sc) (samples (concat rss)) \<and>
        (wait \<and> j = 0 \<longrightarrow> j0 = 0 \<and> length rss = r)"
proof (induction r arbitrary: j0 sc m)
  case 0
  then have "j = j0" "sc' = sc" "m' = m"
    by (simp_all add: ath9k_rng_retry_stop)
  then show ?case
    by (intro exI [of _ "[]"]) (simp add: retry_evs_def samples_def last_sample_def)
next
  case (Suc r)
  show ?case
  proof (cases "wait \<and> j0 = 0")
    case False
    with Suc.prems have "j = j0" "sc' = sc" "m' = m"
      by (simp_all add: ath9k_rng_retry_stop)
    with False show ?thesis
      by (intro exI [of _ "[]"]) (auto simp: retry_evs_def samples_def last_sample_def)
  next
    case True
    define n :: "32 word" where "n = word_of_nat (maxb div 4)"
    obtain j1 sc1 m2 where dr:
      "ath9k_rng_data_read ops n sc (udelay (ath_delay ops) 10 m) = (j1, sc1, m2)"
      by (cases "ath9k_rng_data_read ops n sc (udelay (ath_delay ops) 10 m)") auto
    from True have c: "wait \<and> j0 = 0 \<and> Suc r \<noteq> 0" by simp
    from Suc.prems ath9k_rng_retry_step [OF c dr [unfolded n_def]] have rec:
      "ath9k_rng_retry ops maxb wait j1 r sc1 m2 = (j, sc', m')"
      by simp
    from ath9k_rng_data_read_trace [OF dr] obtain rs where rs:
      "length rs = unat n" "log m2 = log m @ Udelay 10 # scan_evs rs"
      "j1 = word_of_nat (length (noise_words (rng_last sc) (samples rs)))"
      "rng_last sc1 = last_sample (rng_last sc) (samples rs)"
      "mem m2 = store_words (mem m) 0 (noise_words (rng_last sc) (samples rs))"
      by auto
    have ls: "length (samples rs) = unat n"
      using rs(1) by (simp add: samples_def)
    have uj1: "unat j1 = length (noise_words (rng_last sc) (samples rs))"
      using unat_noise_count [OF ls] rs(3) by simp
    from Suc.IH [OF rec, folded n_def] obtain rss where rss:
      "length rss \<le> r" "\<forall>rs \<in> set rss. length rs = unat n"
      "log m' = log m2 @ retry_evs rss"
      "rss = [] \<longrightarrow> j = j1 \<and> sc' = sc1 \<and> m' = m2"
      "rss \<noteq> [] \<longrightarrow> wait \<and> j1 = 0 \<and>
           noise_words (rng_last sc1) (samples (concat (butlast rss))) = [] \<and>
           unat j = length (noise_words (rng_last sc1) (samples (concat rss))) \<and>
           mem m' = store_words (mem m2) 0 (noise_words (rng_last sc1) (samples (concat rss)))"
      "rng_last sc' = last_sample (rng_last sc1) (samples (concat rss))"
      "wait \<and> j = 0 \<longrightarrow> j1 = 0 \<and> length rss = r"
      by blast
    show ?thesis
    proof (cases "rss = []")
      case True
      with rss rs uj1 \<open>wait \<and> j0 = 0\<close> show ?thesis
        by (intro exI [of _ "[rs]"]) (auto simp: retry_evs_def n_def)
    next
      case False
      with rss(5) uj1 have z: "noise_words (rng_last sc) (samples rs) = []" by simp
      from False have bl: "butlast (rs # rss) = rs # butlast rss" by simp
      have "log m' = log m @ retry_evs (rs # rss)"
        using rss(3) rs(2) by (simp add: retry_evs_def)
      moreover have "noise_words (rng_last sc) (samples (concat (butlast (rs # rss)))) = []"
        using rss(5) False z rs(4) by (simp add: bl noise_words_append del: butlast.simps)
      moreover have "noise_words (rng_last sc) (samples (concat (rs # rss)))
          = noise_words (rng_last sc1) (samples (concat rss))"
        using z rs(4) by (simp add: noise_words_append)
      moreover have "rng_last sc' = last_sample (rng_last sc) (samples (concat (rs # rss)))"
        using rss(6) rs(4) by (simp add: last_sample_append)
      moreover have "mem m2 = mem m"
        using rs(5) z by simp
      ultimately show ?thesis
        using rss rs(1) False \<open>wait \<and> j0 = 0\<close>
        by (intro exI [of _ "rs # rss"]) (auto simp: n_def)
    qed
  qed
qed

lemma sint_small: "unat j < 2 ^ 31 \<Longrightarrow> sint (j::32 word) = int (unat j)"
proof -
  assume "unat j < 2 ^ 31"
  then have "int (unat j) < int (2 ^ 31)" by (simp only: of_nat_less_iff)
  then have "uint j < 2 ^ 31" by simp
  moreover have "(- (2 ^ 31) :: int) \<le> 0" by simp
  then have "- (2 ^ 31) \<le> uint j" using uint_ge_0 [of j] by (rule order_trans)
  ultimately have "signed_take_bit 31 (uint j) = uint j"
    by (intro signed_take_bit_int_eq_self) simp_all
  then show ?thesis by (simp add: sint_uint)
qed

lemma store_words_small:
  "unat j = a \<Longrightarrow> a + length ws \<le> 2 ^ 31 \<Longrightarrow>
   store_words f j ws t =
     (if int a \<le> t \<and> t < int a + int (length ws) then ws ! nat (t - int a) else f t)"
proof (induction ws arbitrary: f j a)
  case Nil
  then show ?case by auto
next
  case (Cons w ws)
  then have j: "unat j < 2 ^ 31" by simp
  then have "sint j = int (unat j)" by (rule sint_small)
  with Cons.prems(1) have sj: "sint j = int a" by (simp only:)
  from j have "unat j + unat (1::32 word) < 2 ^ LENGTH(32)" by simp
  then have "unat (j + 1) = unat j + unat (1::32 word)" by (simp only: unat_add_lem)
  with Cons.prems(1) have inc: "unat (j + 1) = a + 1" by simp
  from Cons.prems have le: "a + 1 + length ws \<le> 2 ^ 31" by simp
  have ih: "store_words (f(int a := w)) (j + 1) ws t =
     (if int (a + 1) \<le> t \<and> t < int (a + 1) + int (length ws)
      then ws ! nat (t - int (a + 1)) else (f(int a := w)) t)"
    by (rule Cons.IH [OF inc le])
  have "store_words f j (w # ws) t = store_words (f(int a := w)) (j + 1) ws t"
    by (simp only: store_words.simps sj)
  also have "\<dots> = (if int a \<le> t \<and> t < int a + int (length (w # ws))
      then (w # ws) ! nat (t - int a) else f t)"
  proof (cases "t = int a")
    case True
    then show ?thesis using ih by simp
  next
    case False
    then show ?thesis using ih nth_shift_int [of a t w ws] by auto
  qed
  finally show ?case .
qed

lemma store_words_stored: "length ws \<le> 2 ^ 31 \<Longrightarrow> store_words f 0 ws = stored f ws"
  using store_words_small [of 0 0 ws f] by (auto simp: stored_def fun_eq_iff)

lemma count_times_four:
  "k < 2 ^ 29 \<Longrightarrow> sint (word_of_nat k * 4 :: 32 word) = int (k * 4)"
proof -
  assume k: "k < 2 ^ 29"
  then have "unat (word_of_nat k :: 32 word) = k" by (simp add: unat_of_nat)
  moreover from k have "k * 4 < 2 ^ 32" by simp
  ultimately have u: "unat (word_of_nat k * 4 :: 32 word) = k * 4"
    by (simp add: unat_word_ariths)
  with k have "unat (word_of_nat k * 4 :: 32 word) < 2 ^ 31" by simp
  from sint_small [OF this] u show ?thesis by simp
qed

lemma nonneg_times_four:
  fixes j :: "32 word"
  assumes "0 \<le> sint (j * 4)"
  shows "sint (j * 4) mod 4 = 0" and "sint (j * 4) \<le> int (unat j) * 4"
proof -
  have "sint (j * 4) < 2 ^ 31" using sint_lt [of "j * 4"] by simp
  with assms have "take_bit 32 (sint (j * 4)) = sint (j * 4)"
    by (simp add: take_bit_int_eq_self)
  then have eq: "sint (j * 4) = uint (j * 4)"
    using uint_sint [of "j * 4"] by simp
  have u: "uint (j * 4) = (uint j * 4) mod 2 ^ 32"
    by (simp add: uint_word_ariths)
  have "(uint j * 4) mod 2 ^ 32 mod 4 = (uint j * 4) mod 4"
    by (rule mod_mod_cancel) simp
  with eq u show "sint (j * 4) mod 4 = 0" by simp
  have "(uint j * 4) mod 2 ^ 32 \<le> uint j * 4"
    by (rule zmod_le_nonneg_dividend) simp
  with eq u show "sint (j * 4) \<le> int (unat j) * 4" by simp
qed

lemma ath9k_rng_read_trace:
  assumes run: "ath9k_rng_read ops maxb wait sc m = (r, sc', m')" and cap: "4 \<le> maxb"
  obtains rs rss where
    "length rs = unat (ath_words maxb)" "\<forall>x \<in> set rss. length x = unat (ath_words maxb)"
    "length rss \<le> 20" "rss \<noteq> [] \<longrightarrow> wait"
    "log m' = log m @ scan_evs rs @ retry_evs rss"
    "noise_words (rng_last sc) (samples (concat (butlast (rs # rss)))) = []"
    "r = sint (word_of_nat (length (noise_words (rng_last sc) (samples (concat (rs # rss))))) * 4
           :: 32 word)"
    "length (noise_words (rng_last sc) (samples (concat (rs # rss)))) \<le> unat (ath_words maxb)"
    "mem m' = store_words (mem m) 0 (noise_words (rng_last sc) (samples (concat (rs # rss))))"
    "rng_last sc' = last_sample (rng_last sc) (samples (concat (rs # rss)))"
    "wait \<and> noise_words (rng_last sc) (samples (concat (rs # rss))) = [] \<longrightarrow> length rss = 20"
proof -
  define n where "n = ath_words maxb"
  obtain j1 sc1 m1 where dr: "ath9k_rng_data_read ops n sc m = (j1, sc1, m1)"
    by (cases "ath9k_rng_data_read ops n sc m") auto
  obtain j sc2 m2 where rt: "ath9k_rng_retry ops maxb wait j1 20 sc1 m1 = (j, sc2, m2)"
    by (cases "ath9k_rng_retry ops maxb wait j1 20 sc1 m1") auto
  from run cap dr rt have res: "r = sint (j * 4)" "sc' = sc2" "m' = m2"
    by (simp_all add: ath9k_rng_read_def n_def ath_words_def)
  from ath9k_rng_data_read_trace [OF dr] obtain rs where rs:
    "length rs = unat n" "log m1 = log m @ scan_evs rs"
    "j1 = word_of_nat (length (noise_words (rng_last sc) (samples rs)))"
    "rng_last sc1 = last_sample (rng_last sc) (samples rs)"
    "mem m1 = store_words (mem m) 0 (noise_words (rng_last sc) (samples rs))"
    by auto
  have ls: "length (samples rs) = unat n"
    using rs(1) by simp
  have uj1: "unat j1 = length (noise_words (rng_last sc) (samples rs))"
    using unat_noise_count [OF ls] rs(3) by simp
  from ath9k_rng_retry_trace [OF rt, folded ath_words_def n_def] obtain rss where rss:
    "length rss \<le> 20" "\<forall>rs \<in> set rss. length rs = unat n"
    "log m2 = log m1 @ retry_evs rss"
    "rss = [] \<longrightarrow> j = j1 \<and> sc2 = sc1 \<and> m2 = m1"
    "rss \<noteq> [] \<longrightarrow> wait \<and> j1 = 0 \<and>
         noise_words (rng_last sc1) (samples (concat (butlast rss))) = [] \<and>
         unat j = length (noise_words (rng_last sc1) (samples (concat rss))) \<and>
         mem m2 = store_words (mem m1) 0 (noise_words (rng_last sc1) (samples (concat rss)))"
    "rng_last sc2 = last_sample (rng_last sc1) (samples (concat rss))"
    "wait \<and> j = 0 \<longrightarrow> j1 = 0 \<and> length rss = 20"
    by blast
  let ?ws = "noise_words (rng_last sc) (samples (concat (rs # rss)))"
  have split: "?ws = noise_words (rng_last sc) (samples rs)
      @ noise_words (rng_last sc1) (samples (concat rss))"
    using rs(4) by (simp add: noise_words_append)
  have uj: "unat j = length ?ws"
  proof (cases "rss = []")
    case True
    with rss(4) uj1 show ?thesis by simp
  next
    case False
    with rss(5) uj1 split show ?thesis by simp
  qed
  have "word_of_nat (unat j) = j" by simp
  with uj have j: "j = word_of_nat (length ?ws)" by simp
  have pre: "noise_words (rng_last sc) (samples (concat (butlast (rs # rss)))) = []"
  proof (cases "rss = []")
    case True
    then show ?thesis by simp
  next
    case False
    then have bl: "butlast (rs # rss) = rs # butlast rss" by simp
    from False rss(5) uj1 have "noise_words (rng_last sc) (samples rs) = []" by simp
    with False rss(5) rs(4) show ?thesis
      by (simp add: bl noise_words_append del: butlast.simps)
  qed
  have len: "length ?ws \<le> unat n"
  proof (cases "rss = []")
    case True
    then show ?thesis using length_noise_words [of "rng_last sc" "samples rs"] ls by simp
  next
    case False
    then have "concat (rs # rss) = concat (butlast (rs # rss)) @ last (rs # rss)"
      by (metis append_butlast_last_id concat.simps(1) concat.simps(2) concat_append list.distinct(1) self_append_conv)
    then have "?ws = noise_words
        (last_sample (rng_last sc) (samples (concat (butlast (rs # rss))))) (samples (last (rs # rss)))"
      using pre by (simp add: noise_words_append del: butlast.simps last.simps concat.simps)
    moreover have "length (samples (last (rs # rss))) = unat n"
      using rs(1) rss(2) False by simp
    ultimately show ?thesis
      using length_noise_words
        [of "last_sample (rng_last sc) (samples (concat (butlast (rs # rss))))"
          "samples (last (rs # rss))"]
      by simp
  qed
  have memf: "mem m2 = store_words (mem m) 0 ?ws"
  proof (cases "rss = []")
    case True
    with rss(4) rs(5) show ?thesis by simp
  next
    case False
    with rss(5) uj1 have "noise_words (rng_last sc) (samples rs) = []" by simp
    with False rss(5) rs(5) split show ?thesis by simp
  qed
  have lastf: "rng_last sc2 = last_sample (rng_last sc) (samples (concat (rs # rss)))"
    using rss(6) rs(4) by (simp add: last_sample_append)
  have "?ws = [] \<longrightarrow> j = 0"
    using uj by (auto simp: unat_0_iff [symmetric])
  with rss(7) have ex: "wait \<and> ?ws = [] \<longrightarrow> length rss = 20"
    by blast
  have wt: "rss \<noteq> [] \<longrightarrow> wait"
    using rss(5) by blast
  have lg: "log m2 = log m @ scan_evs rs @ retry_evs rss"
    using rss(3) rs(2) by simp
  show thesis
    using rs(1) rss(1,2) wt lg pre res j len memf lastf ex
    by (intro that [of rs rss]) (simp_all add: n_def)
qed

subsection \<open>Bounds on the results\<close>

lemma mxc_rnga_read_bound:
  "0 \<le> fst (mxc_rnga_read d maxb wait s) \<Longrightarrow>
   fst (mxc_rnga_read d maxb wait s) mod 4 = 0 \<and>
   fst (mxc_rnga_read d maxb wait s) \<le> int (maxb div 4 * 4)"
proof -
  assume nn: "0 \<le> fst (mxc_rnga_read d maxb wait s)"
  obtain r s' where run: "mxc_rnga_read d maxb wait s = (r, s')"
    by (cases "mxc_rnga_read d maxb wait s")
  have cap: "4 \<le> maxb"
  proof (rule ccontr)
    assume "\<not> 4 \<le> maxb"
    then have "fst (mxc_rnga_read d maxb wait s) = - EINVAL"
      by (simp add: mxc_rnga_read_def)
    with nn show False by (simp add: EINVAL_def)
  qed
  from run cap have "r mod 4 = 0 \<and> r \<le> int (maxb div 4 * 4)"
    by (cases rule: mxc_rnga_read_cases) auto
  with run show ?thesis by simp
qed

lemma tx4939_rng_read_bound:
  "0 \<le> fst (tx4939_rng_read c64 d maxb wait s) \<Longrightarrow>
   fst (tx4939_rng_read c64 d maxb wait s) mod 8 = 0 \<and>
   fst (tx4939_rng_read c64 d maxb wait s) \<le> int (maxb div 8 * 8)"
proof -
  assume nn: "0 \<le> fst (tx4939_rng_read c64 d maxb wait s)"
  obtain r s' where run: "tx4939_rng_read c64 d maxb wait s = (r, s')"
    by (cases "tx4939_rng_read c64 d maxb wait s")
  have cap: "8 \<le> maxb"
  proof (rule ccontr)
    assume "\<not> 8 \<le> maxb"
    then have "fst (tx4939_rng_read c64 d maxb wait s) = - EINVAL"
      by (simp add: tx4939_rng_read_def)
    with nn show False by (simp add: EINVAL_def)
  qed
  from run cap have "r mod 8 = 0 \<and> r \<le> int (maxb div 8 * 8)"
    by (cases rule: tx4939_rng_read_cases) auto
  with run show ?thesis by simp
qed

lemma unat_ath_words_le: "unat (ath_words maxb) \<le> maxb div 4"
  by (simp add: ath_words_def unat_of_nat)

lemma ath9k_rng_read_bound:
  "0 \<le> fst (ath9k_rng_read ops maxb wait sc m) \<Longrightarrow>
   fst (ath9k_rng_read ops maxb wait sc m) mod 4 = 0 \<and>
   fst (ath9k_rng_read ops maxb wait sc m) \<le> int (maxb div 4 * 4)"
proof -
  assume nn: "0 \<le> fst (ath9k_rng_read ops maxb wait sc m)"
  obtain r sc' m' where run: "ath9k_rng_read ops maxb wait sc m = (r, sc', m')"
    by (cases "ath9k_rng_read ops maxb wait sc m") auto
  have cap: "4 \<le> maxb"
  proof (rule ccontr)
    assume "\<not> 4 \<le> maxb"
    then have "fst (ath9k_rng_read ops maxb wait sc m) = - EINVAL"
      by (simp add: ath9k_rng_read_def)
    with nn show False by (simp add: EINVAL_def)
  qed
  from run cap obtain k where k: "r = sint (word_of_nat k * 4 :: 32 word)"
    "k \<le> unat (ath_words maxb)"
    by (rule ath9k_rng_read_trace) blast
  from nn run k(1) have n0: "0 \<le> sint (word_of_nat k * 4 :: 32 word)" by simp
  have "unat (word_of_nat k :: 32 word) \<le> k" by (simp add: unat_of_nat)
  with k(2) unat_ath_words_le [of maxb] have "unat (word_of_nat k :: 32 word) \<le> maxb div 4"
    by linarith
  then have a: "int (unat (word_of_nat k :: 32 word)) \<le> int (maxb div 4)"
    by (simp only: of_nat_le_iff)
  have c: "int (maxb div 4 * 4) = int (maxb div 4) * 4" by simp
  note b = nonneg_times_four [OF n0]
  from a b(2) c k(1) have "r \<le> int (maxb div 4 * 4)" by linarith
  with b(1) k(1) have "r mod 4 = 0 \<and> r \<le> int (maxb div 4 * 4)"
    by simp
  with run show ?thesis by simp
qed

subsection \<open>Events that do not occur in a drain\<close>

lemma no_delay_in_rnga_drain: "Udelay n \<notin> set (rnga_drain_evs ps)"
  by (auto simp: rnga_drain_evs_def)

lemma rnga_drain_evs_start:
  "rnga_drain_evs ps = [] \<or> (\<exists>w tl. rnga_drain_evs ps = MmioRead RNGA_OUTPUT_FIFO w # tl)"
  by (cases ps) (auto simp: rnga_drain_evs_def)

lemma no_poll_in_tx_drain:
  "Ndelay n \<notin> set (tx_drain_evs c64 ws)" "MmioRead TX4939_RNG_RCSR v \<notin> set (tx_drain_evs c64 ws)"
  by (auto simp: tx_drain_evs_def tx_copy_evs_def io_start_evs_def io_end_evs_def
      TX4939_RNG_RCSR_def TX4939_RNG_ROR_def in_set_enumerate_eq)

subsection \<open>The ath9k read for capacities below \<open>2 ^ 31\<close>\<close>

lemma unat_ath_words: "maxb < 2 ^ 31 \<Longrightarrow> unat (ath_words maxb) = maxb div 4"
proof -
  assume "maxb < 2 ^ 31"
  then have "maxb div 4 < 2 ^ 32" by simp
  then show ?thesis by (simp add: ath_words_def unat_of_nat)
qed

lemma ath9k_rng_read_small:
  assumes run: "ath9k_rng_read ops maxb wait sc m = (r, sc', m')" and cap: "4 \<le> maxb"
    and small: "maxb < 2 ^ 31"
  obtains rs rss where
    "length rs = maxb div 4" "\<forall>x \<in> set rss. length x = maxb div 4"
    "length rss \<le> 20" "rss \<noteq> [] \<longrightarrow> wait"
    "log m' = log m @ scan_evs rs @ retry_evs rss"
    "noise_words (rng_last sc) (samples (concat (butlast (rs # rss)))) = []"
    "r = int (length (noise_words (rng_last sc) (samples (concat (rs # rss)))) * 4)"
    "length (noise_words (rng_last sc) (samples (concat (rs # rss)))) \<le> maxb div 4"
    "mem m' = stored (mem m) (noise_words (rng_last sc) (samples (concat (rs # rss))))"
    "rng_last sc' = last_sample (rng_last sc) (samples (concat (rs # rss)))"
    "wait \<and> noise_words (rng_last sc) (samples (concat (rs # rss))) = [] \<longrightarrow> length rss = 20"
proof -
  note n = unat_ath_words [OF small]
  from run cap show thesis
  proof (rule ath9k_rng_read_trace)
    fix rs rss
    let ?ws = "noise_words (rng_last sc) (samples (concat (rs # rss)))"
    assume a: "length rs = unat (ath_words maxb)"
      "\<forall>x \<in> set rss. length x = unat (ath_words maxb)"
      "length rss \<le> 20" "rss \<noteq> [] \<longrightarrow> wait"
      "log m' = log m @ scan_evs rs @ retry_evs rss"
      "noise_words (rng_last sc) (samples (concat (butlast (rs # rss)))) = []"
      "r = sint (word_of_nat (length ?ws) * 4 :: 32 word)"
      "length ?ws \<le> unat (ath_words maxb)"
      "mem m' = store_words (mem m) 0 ?ws"
      "rng_last sc' = last_sample (rng_last sc) (samples (concat (rs # rss)))"
      "wait \<and> ?ws = [] \<longrightarrow> length rss = 20"
    from a(8) n small have len: "length ?ws < 2 ^ 29" by simp
    then have r: "r = int (length ?ws * 4)"
      using a(7) count_times_four [of "length ?ws"] by simp
    from len have "length ?ws \<le> 2 ^ 31" by simp
    then have mm: "mem m' = stored (mem m) ?ws"
      using a(9) store_words_stored [of ?ws "mem m"] by simp
    show thesis
      using a(1,2,3,4,5,6,8,10,11) r mm n
      by (intro that [of rs rss]) simp_all
  qed
qed

lemma concat_butlast_last:
  "xss \<noteq> [] \<Longrightarrow> concat xss = concat (butlast xss) @ last xss"
proof -
  assume "xss \<noteq> []"
  then have "xss = butlast xss @ [last xss]" by simp
  then have "concat xss = concat (butlast xss @ [last xss])" by (rule arg_cong)
  then show ?thesis by simp
qed

subsection \<open>An ath9k read of \<open>2 ^ 32\<close> bytes from the alternating device\<close>

text \<open>
  On the alternating device every pair of a scan is stored, so the scan counts as many
  words as it examines pairs and word 0 of the buffer becomes \<open>0x10002\<close>; no later
  store comes back to index 0. With a capacity of \<open>2 ^ 32\<close> bytes the scan runs over
  \<open>2 ^ 30\<close> pairs, and the byte count \<open>2 ^ 32\<close> has the low 32 bits 0.
\<close>

lemma alternating_pair:
  assumes "\<not> hw m"
  shows "REG_READ alternating_ops AR_PHY_TST_ADC m =
           (1, m\<lparr>hw := True, log := log m @ [RegRead AR_PHY_TST_ADC 1]\<rparr>)"
    and "REG_READ alternating_ops AR_PHY_TST_ADC
           (m\<lparr>hw := True, log := log m @ [RegRead AR_PHY_TST_ADC 1]\<rparr>) =
           (2, m\<lparr>hw := False,
                 log := log m @ [RegRead AR_PHY_TST_ADC 1, RegRead AR_PHY_TST_ADC 2]\<rparr>)"
  using assms by (simp_all add: REG_READ_def alternating_ops_def)

lemma alternating_scan_step:
  assumes "\<not> hw m" and "rlast \<noteq> 1" and "i < n"
  shows "ath9k_rng_scan alternating_ops n i j rlast m =
           ath9k_rng_scan alternating_ops n (i + 1) (j + 1) 2
             (m\<lparr>hw := False,
                log := log m @ [RegRead AR_PHY_TST_ADC 1, RegRead AR_PHY_TST_ADC 2],
                mem := (mem m)(sint j := 0x10002)\<rparr>)"
proof -
  have ok: "pair_ok rlast 1 2"
    using assms(2) by (simp add: pair_ok_def)
  have "(1::32 word) = 1 AND 0xffff" "(2::32 word) = 2 AND 0xffff"
    by simp_all
  from ath9k_rng_scan_step [OF assms(3) alternating_pair(1) [OF assms(1)]
      alternating_pair(2) [OF assms(1)] this, of j rlast] ok
  show ?thesis by simp
qed

lemma alternating_scan_rest:
  "\<not> hw m \<Longrightarrow> rlast \<noteq> 1 \<Longrightarrow> i \<le> n \<Longrightarrow> i \<noteq> 0 \<Longrightarrow>
   fst (ath9k_rng_scan alternating_ops n i i rlast m) = n \<and>
   mem (snd (snd (ath9k_rng_scan alternating_ops n i i rlast m))) 0 = mem m 0"
proof (induction "unat n - unat i" arbitrary: i rlast m)
  case 0
  then have "unat n \<le> unat i" by simp
  then have "n \<le> i" by (simp add: word_le_nat_alt)
  with 0 have "i = n" by simp
  then show ?case by (simp add: ath9k_rng_scan_stop)
next
  case (Suc k)
  from Suc(2) have lt: "i < n" by (simp add: word_less_nat_alt)
  have inc: "unat (i + 1) = Suc (unat i)" using lt by (rule word_inc_unat)
  have le: "i + 1 \<le> n" using lt inc by (simp add: word_le_nat_alt word_less_nat_alt)
  have nz: "i + 1 \<noteq> 0" using inc by (auto simp: unat_eq_0 dest: arg_cong [of _ _ unat])
  have k: "k = unat n - unat (i + 1)" using Suc(2) inc by simp
  let ?m = "m\<lparr>hw := False,
               log := log m @ [RegRead AR_PHY_TST_ADC 1, RegRead AR_PHY_TST_ADC 2],
               mem := (mem m)(sint i := 0x10002)\<rparr>"
  have ih: "fst (ath9k_rng_scan alternating_ops n (i + 1) (i + 1) 2 ?m) = n \<and>
      mem (snd (snd (ath9k_rng_scan alternating_ops n (i + 1) (i + 1) 2 ?m))) 0 = mem ?m 0"
    by (rule Suc(1) [OF k _ _ le nz]) simp_all
  have "sint i \<noteq> 0" using Suc(6) by (simp add: signed_eq_0_iff)
  then have "mem ?m 0 = mem m 0" by simp
  with ih show ?case
    by (simp only: alternating_scan_step [OF Suc(3) Suc(4) lt])
qed

lemma alternating_scan_all:
  assumes "\<not> hw m" and "rlast \<noteq> 1" and "0 < n"
  shows "fst (ath9k_rng_scan alternating_ops n 0 0 rlast m) = n"
    and "mem (snd (snd (ath9k_rng_scan alternating_ops n 0 0 rlast m))) 0 = 0x10002"
proof -
  let ?m = "m\<lparr>hw := False,
               log := log m @ [RegRead AR_PHY_TST_ADC 1, RegRead AR_PHY_TST_ADC 2],
               mem := (mem m)(sint (0::32 word) := 0x10002)\<rparr>"
  have le: "(0::32 word) + 1 \<le> n"
    using assms(3) by (simp add: word_le_nat_alt word_less_nat_alt)
  have "fst (ath9k_rng_scan alternating_ops n (0 + 1) (0 + 1) 2 ?m) = n \<and>
      mem (snd (snd (ath9k_rng_scan alternating_ops n (0 + 1) (0 + 1) 2 ?m))) 0 = mem ?m 0"
    by (rule alternating_scan_rest [OF _ _ le]) simp_all
  then show "fst (ath9k_rng_scan alternating_ops n 0 0 rlast m) = n"
    and "mem (snd (snd (ath9k_rng_scan alternating_ops n 0 0 rlast m))) 0 = 0x10002"
    by (simp_all only: alternating_scan_step [OF assms]) simp_all
qed

lemma alternating_data_read:
  assumes "\<not> hw m" and "rng_last sc \<noteq> 1" and "0 < n"
  shows "fst (ath9k_rng_data_read alternating_ops n sc m) = n"
    and "mem (snd (snd (ath9k_rng_data_read alternating_ops n sc m))) 0 = 0x10002"
proof -
  let ?m4 = "REG_RMW_FIELD alternating_ops AR_PHY_TEST_CTL_STATUS AR_PHY_TEST_CTL_RX_OBS_SEL 0
      (REG_CLR_BIT alternating_ops AR_PHY_TEST AR_PHY_TEST_RX_OBS_SEL_BIT5
        (REG_RMW_FIELD alternating_ops AR_PHY_TEST AR_PHY_TEST_BBB_OBS_SEL 1
          (ath9k_ps_wakeup alternating_ops m)))"
  have h: "\<not> hw ?m4"
    using assms(1)
    by (simp add: REG_RMW_FIELD_def REG_CLR_BIT_def ath9k_ps_wakeup_def alternating_ops_def)
  note s = alternating_scan_all [OF h assms(2,3)]
  show "fst (ath9k_rng_data_read alternating_ops n sc m) = n"
    using s(1) by (auto simp: ath9k_rng_data_read_def Let_def split: prod.splits)
  show "mem (snd (snd (ath9k_rng_data_read alternating_ops n sc m))) 0 = 0x10002"
    using s(2) by (auto simp: ath9k_rng_data_read_def Let_def ath9k_ps_restore_def split: prod.splits)
qed

lemma alternating_read:
  "fst (ath9k_rng_read alternating_ops (2 ^ 32) False \<lparr>rng_last = 0\<rparr> ath_alternating) = 0"
  "mem (snd (snd (ath9k_rng_read alternating_ops (2 ^ 32) False \<lparr>rng_last = 0\<rparr> ath_alternating))) 0
     = 0x10002"
  "fst (ath9k_rng_data_read alternating_ops (word_of_nat (2 ^ 32 div 4)) \<lparr>rng_last = 0\<rparr>
     ath_alternating) = 0x40000000"
proof -
  have n: "(word_of_nat (2 ^ 32 div 4) :: 32 word) = 0x40000000" by simp
  have h: "\<not> hw ath_alternating" by (simp add: ath_alternating_def boot_def)
  have l: "rng_last \<lparr>rng_last = 0\<rparr> \<noteq> 1" by simp
  have p: "(0::32 word) < 0x40000000" by simp
  note d = alternating_data_read [OF h l p]
  show "fst (ath9k_rng_data_read alternating_ops (word_of_nat (2 ^ 32 div 4)) \<lparr>rng_last = 0\<rparr>
     ath_alternating) = 0x40000000"
    using d(1) by (simp only: n)
  show "fst (ath9k_rng_read alternating_ops (2 ^ 32) False \<lparr>rng_last = 0\<rparr> ath_alternating) = 0"
    using d(1) by (auto simp: ath9k_rng_read_def n ath9k_rng_retry_stop split: prod.splits)
  show "mem (snd (snd (ath9k_rng_read alternating_ops (2 ^ 32)
      False \<lparr>rng_last = 0\<rparr> ath_alternating))) 0 = 0x10002"
    using d(2) by (auto simp: ath9k_rng_read_def n ath9k_rng_retry_stop split: prod.splits)
qed

subsection \<open>The TX4939 probe\<close>

lemma tx4939_rng_flush_unroll:
  "tx4939_rng_flush c64 d 0 s =
     (let (r1, s1) = tx4939_rng_read c64 d 24 True s
      in if r1 = 0 then (True, s1)
         else let (r2, s2) = tx4939_rng_read c64 d 24 True s1
              in if r2 = 0 then (True, s2) else (False, s2))"
proof -
  have two: "tx4939_rng_flush c64 d (Suc (Suc 0)) s' = (False, s')" for s'
    by (subst tx4939_rng_flush.simps) simp
  have one: "tx4939_rng_flush c64 d (Suc 0) s' =
      (let (r2, s2) = tx4939_rng_read c64 d 24 True s'
       in if r2 = 0 then (True, s2) else (False, s2))" for s'
    by (subst tx4939_rng_flush.simps) (simp add: two split: prod.splits)
  show ?thesis
    by (subst tx4939_rng_flush.simps) (simp add: one split: prod.splits)
qed

lemma tx_after_reset_simps [simp]:
  "log (tx_after_reset c64 d s) = log s @ tx_reset_evs c64"
  "mem (tx_after_reset c64 d s) = mem s"
  by (simp_all add: tx_after_reset_def tx_reset_evs_def write_rng_def)

lemma no_register_in_tx_evs:
  "HwrngRegister \<notin> set (tx_reset_evs c64)" "HwrngRegister \<notin> set (tx_check_evs c64 v)"
  "HwrngRegister \<notin> set (tx_poll_evs c64 vs)" "HwrngRegister \<notin> set (tx_drain_evs c64 ws)"
  by (auto simp: tx_reset_evs_def tx_check_evs_def tx_poll_evs_def tx_drain_evs_def
      tx_copy_evs_def io_start_evs_def io_end_evs_def)

lemma tx4939_rng_probe_unroll:
  assumes "kzalloc_ok env" "ioremap_err env = None"
  shows "tx4939_rng_probe c64 d env s =
     (let (r1, s1) = tx4939_rng_read c64 d 24 True (tx_after_reset c64 d s)
      in if r1 = 0 then (- EIO, s1)
         else let (r2, s2) = tx4939_rng_read c64 d 24 True s1
              in if r2 = 0 then (- EIO, s2)
                 else (hwrng_register_ret env,
                       s2\<lparr>log := log s2 @ [SetDrvdata, HwrngRegister]\<rparr>))"
  using assms
  by (simp add: tx4939_rng_probe_def tx4939_rng_flush_unroll tx_after_reset_def Let_def
      split: prod.splits)

lemma tx_discard_read_cases [consumes 1, case_names idle full]:
  assumes run: "tx4939_rng_read c64 d 24 True s = (r, s')"
  obtains
    (idle) v0 vs where "tx_polled True v0 vs" "tx_busy (last (v0 # vs))" "length vs = 20"
      "r = 0" "log s' = log s @ tx_idle_evs c64 v0 vs"
  | (full) v0 vs ws where "tx_polled True v0 vs" "\<not> tx_busy (last (v0 # vs))"
      "length ws = 3" "r = 24" "log s' = log s @ tx_read_evs c64 v0 vs ws"
proof -
  have cap: "8 \<le> (24::nat)" by simp
  from run cap show thesis
  proof (cases rule: tx4939_rng_read_cases)
    case (idle v0 vs)
    then show ?thesis
      by (intro that(1) [of v0 vs]) (simp_all add: tx_idle_evs_def)
  next
    case (full v0 vs ws)
    then show ?thesis
      by (intro that(2) [of v0 vs ws]) (simp_all add: tx_read_evs_def tx_drain_evs_def)
  qed
qed

section \<open>Rejected requests\<close>

text \<open>
  C5. A request whose capacity is below one hardware word (4 bytes for RNGA and the
  ath9k source, 8 bytes for TX4939) is answered with \<open>-EINVAL\<close>, an error code, and
  the machine is returned as it was: no register was read or written, nothing was
  logged, the buffer is untouched.
\<close>

theorem short_buffer_einval:
  "(maxb1 < 4 \<longrightarrow> mxc_rnga_read d1 maxb1 wait1 s1 = (- EINVAL, s1)) \<and>
   (maxb2 < 8 \<longrightarrow> tx4939_rng_read c64 d2 maxb2 wait2 s2 = (- EINVAL, s2)) \<and>
   (maxb3 < 4 \<longrightarrow> ath9k_rng_read ops maxb3 wait3 sc m = (- EINVAL, sc, m)) \<and>
   - EINVAL < 0"
  by (simp add: mxc_rnga_read_def tx4939_rng_read_def ath9k_rng_read_def EINVAL_def)

theorem short_buffer_einval_witness:
  "(3::nat) < 4 \<and> (7::nat) < 8 \<and> (0::nat) < 4 \<and>
   mxc_rnga_read script_dev 3 True rnga_level5 = (- 22, rnga_level5) \<and>
   tx4939_rng_read False script_dev 7 True tx_ready = (- 22, tx_ready) \<and>
   ath9k_rng_read script_ops 0 False \<lparr>rng_last = 0\<rparr> ath_stuck
     = (- 22, \<lparr>rng_last = 0\<rparr>, ath_stuck) \<and>
   log rnga_level5 = [] \<and> log tx_ready = [] \<and> log ath_stuck = []"
  using short_buffer_einval [of 3 script_dev True rnga_level5 7 False script_dev True
      tx_ready 0 script_ops False "\<lparr>rng_last = 0\<rparr>" ath_stuck]
  by (simp add: boot_def EINVAL_def rnga_level5_def tx_ready_def ath_stuck_def)

section \<open>Size of the result\<close>

text \<open>
  C1. Whenever one of the three read entry points returns a value that is not an error
  code (a non-negative \<open>int\<close>), that byte count is a whole multiple of the word size
  of the source (4 bytes for RNGA and the ath9k source, 8 bytes for TX4939) and is at most
  the capacity rounded down to a multiple of the word size.
\<close>

theorem read_result_whole_words:
  "(0 \<le> fst (mxc_rnga_read d1 maxb1 wait1 s1) \<longrightarrow>
      fst (mxc_rnga_read d1 maxb1 wait1 s1) mod 4 = 0 \<and>
      fst (mxc_rnga_read d1 maxb1 wait1 s1) \<le> int (maxb1 div 4 * 4)) \<and>
   (0 \<le> fst (tx4939_rng_read c64 d2 maxb2 wait2 s2) \<longrightarrow>
      fst (tx4939_rng_read c64 d2 maxb2 wait2 s2) mod 8 = 0 \<and>
      fst (tx4939_rng_read c64 d2 maxb2 wait2 s2) \<le> int (maxb2 div 8 * 8)) \<and>
   (0 \<le> fst (ath9k_rng_read ops maxb3 wait3 sc m) \<longrightarrow>
      fst (ath9k_rng_read ops maxb3 wait3 sc m) mod 4 = 0 \<and>
      fst (ath9k_rng_read ops maxb3 wait3 sc m) \<le> int (maxb3 div 4 * 4))"
  using mxc_rnga_read_bound [of d1 maxb1 wait1 s1]
    tx4939_rng_read_bound [of c64 d2 maxb2 wait2 s2]
    ath9k_rng_read_bound [of ops maxb3 wait3 sc m]
  by blast

lemma rnga_run_14: "fst (mxc_rnga_read script_dev 14 True (boot [0, 0x500, 1, 0, 2, 0, 3, 0])) = 12"
  by code_simp
lemma tx_run_23: "fst (tx4939_rng_read False script_dev 23 True (boot [1, 1, 0, 11, 22])) = 16"
  by code_simp
lemma ath_run_11: "fst (ath9k_rng_read script_ops 11 False \<lparr>rng_last = 0\<rparr> (boot [1, 2, 3, 3])) = 4"
  by code_simp

theorem read_result_whole_words_witness:
  "fst (mxc_rnga_read script_dev 14 True (boot [0, 0x500, 1, 0, 2, 0, 3, 0])) = 12 \<and>
   fst (tx4939_rng_read False script_dev 23 True (boot [1, 1, 0, 11, 22])) = 16 \<and>
   fst (ath9k_rng_read script_ops 11 False \<lparr>rng_last = 0\<rparr> (boot [1, 2, 3, 3])) = 4 \<and>
   (12 :: int) mod 4 = 0 \<and> (12 :: int) \<le> int (14 div 4 * 4) \<and>
   (16 :: int) mod 8 = 0 \<and> (16 :: int) \<le> int (23 div 8 * 8) \<and>
   (4 :: int) mod 4 = 0 \<and> (4 :: int) \<le> int (11 div 4 * 4)"
  using read_result_whole_words [of script_dev 14 True "boot [0, 0x500, 1, 0, 2, 0, 3, 0]"
      False script_dev 23 True "boot [1, 1, 0, 11, 22]"
      script_ops 11 False "\<lparr>rng_last = 0\<rparr>" "boot [1, 2, 3, 3]"]
  by (simp add: rnga_run_14 tx_run_23 ath_run_11)

section \<open>The drain step\<close>

text \<open>
  C2. Once a status check has found the source ready, and if no status check of the drain
  reports a fault, the call reads exactly \<open>n = min available (capacity div word size)\<close>
  words, stores them at the buffer indices \<open>0 .. n - 1\<close> in the order read, and returns
  \<open>n\<close> times the word size. For TX4939 \<open>available\<close> is 3, the words come from the output
  registers \<open>ROR(0) .. ROR(n - 1)\<close>, and the reads are followed by exactly one write of the
  start bit to the control register. For RNGA \<open>available\<close> is the level field (bits 8 to 15)
  of the status word that confirmed readiness. The scenarios: a ready TX4939 asked for 32
  bytes returns 24 and writes the start bit once; an RNGA at level 5 asked for 12 bytes
  returns 12.
\<close>

theorem drain_takes_min_words:
  "(8 \<le> maxb2 \<and> tx4939_rng_read c64 d2 maxb2 wait2 s2 = (r2, t2) \<longrightarrow>
      (\<exists>v0 vs ws. tx_polled wait2 v0 vs \<and>
         log t2 = log s2 @ tx_check_evs c64 v0 @ tx_poll_evs c64 vs
           @ (if tx_busy (last (v0 # vs)) then [] else tx_drain_evs c64 ws) \<and>
         (\<not> tx_busy (last (v0 # vs)) \<longrightarrow>
            length ws = min 3 (maxb2 div 8) \<and> r2 = int (length ws * 8) \<and>
            mem t2 = stored (mem s2) ws))) \<and>
   (4 \<le> maxb1 \<and> mxc_rnga_read d1 maxb1 wait1 s1 = (r1, t1) \<longrightarrow>
      (\<exists>v0 vs ps rest. rnga_polled wait1 v0 vs \<and>
         log t1 = log s1 @ MmioRead RNGA_STATUS v0 # rnga_poll_evs vs @ rnga_drain_evs ps @ rest \<and>
         (rest = [] \<or> (\<exists>c. rest = rnga_clear_evs c)) \<and>
         (rnga_level (last (v0 # vs)) \<noteq> 0 \<and> (\<forall>p \<in> set ps. \<not> rnga_fault (snd p)) \<longrightarrow>
            length ps = min (rnga_avail (last (v0 # vs))) (maxb1 div 4) \<and>
            r1 = int (length ps * 4) \<and> rest = [] \<and>
            mem t1 = stored (mem s1) (map fst ps))))"
proof (intro conjI impI)
  assume "8 \<le> maxb2 \<and> tx4939_rng_read c64 d2 maxb2 wait2 s2 = (r2, t2)"
  then have run: "tx4939_rng_read c64 d2 maxb2 wait2 s2 = (r2, t2)" and cap: "8 \<le> maxb2"
    by simp_all
  from run cap show "\<exists>v0 vs ws. tx_polled wait2 v0 vs \<and>
         log t2 = log s2 @ tx_check_evs c64 v0 @ tx_poll_evs c64 vs
           @ (if tx_busy (last (v0 # vs)) then [] else tx_drain_evs c64 ws) \<and>
         (\<not> tx_busy (last (v0 # vs)) \<longrightarrow>
            length ws = min 3 (maxb2 div 8) \<and> r2 = int (length ws * 8) \<and>
            mem t2 = stored (mem s2) ws)"
  proof (cases rule: tx4939_rng_read_cases)
    case (idle v0 vs)
    then show ?thesis
      by (intro exI [of _ v0] exI [of _ vs] exI [of _ "[]"]) simp
  next
    case (full v0 vs ws)
    then show ?thesis
      by (intro exI [of _ v0] exI [of _ vs] exI [of _ ws]) (simp add: tx_drain_evs_def)
  qed
next
  assume "4 \<le> maxb1 \<and> mxc_rnga_read d1 maxb1 wait1 s1 = (r1, t1)"
  then have run: "mxc_rnga_read d1 maxb1 wait1 s1 = (r1, t1)" and cap: "4 \<le> maxb1"
    by simp_all
  from run cap show "\<exists>v0 vs ps rest. rnga_polled wait1 v0 vs \<and>
         log t1 = log s1 @ MmioRead RNGA_STATUS v0 # rnga_poll_evs vs @ rnga_drain_evs ps @ rest \<and>
         (rest = [] \<or> (\<exists>c. rest = rnga_clear_evs c)) \<and>
         (rnga_level (last (v0 # vs)) \<noteq> 0 \<and> (\<forall>p \<in> set ps. \<not> rnga_fault (snd p)) \<longrightarrow>
            length ps = min (rnga_avail (last (v0 # vs))) (maxb1 div 4) \<and>
            r1 = int (length ps * 4) \<and> rest = [] \<and>
            mem t1 = stored (mem s1) (map fst ps))"
  proof (cases rule: mxc_rnga_read_cases)
    case (idle v0 vs)
    then show ?thesis
      by (intro exI [of _ v0] exI [of _ vs] exI [of _ "[]"]) (simp add: rnga_drain_evs_def)
  next
    case (full v0 vs ps)
    then show ?thesis
      by (intro exI [of _ v0] exI [of _ vs] exI [of _ ps] exI [of _ "[]"]) simp
  next
    case (fault v0 vs ps w st ctrl)
    then show ?thesis
      by (intro exI [of _ v0] exI [of _ vs] exI [of _ "ps @ [(w, st)]"]
          exI [of _ "rnga_clear_evs ctrl"]) (auto simp: rnga_clear_evs_def)
  qed
qed

lemma tx_run_32:
  "fst (tx4939_rng_read False script_dev 32 False tx_ready) = 24"
  "log (snd (tx4939_rng_read False script_dev 32 False tx_ready)) =
     [IrqDisable, MmioRead 0 0, IrqEnable, IrqDisable, MmioRead 24 11, MmioRead 32 22,
      MmioRead 40 33, MmioWrite 0 1, IrqEnable]"
  "map (mem (snd (tx4939_rng_read False script_dev 32 False tx_ready))) [0, 1, 2, 3]
     = [11, 22, 33, 0]"
  by code_simp+

lemma rnga_run_12:
  "fst (mxc_rnga_read script_dev 12 False rnga_level5) = 12"
  "log (snd (mxc_rnga_read script_dev 12 False rnga_level5)) =
     [MmioRead 4 0x500, MmioRead 12 7, MmioRead 4 0, MmioRead 12 8, MmioRead 4 0,
      MmioRead 12 9, MmioRead 4 0]"
  "map (mem (snd (mxc_rnga_read script_dev 12 False rnga_level5))) [0, 1, 2, 3] = [7, 8, 9, 0]"
  "rnga_avail 0x500 = 5"
  by code_simp+

theorem drain_takes_min_words_witness:
  "(8 \<le> (32::nat) \<and>
    tx4939_rng_read False script_dev 32 False tx_ready =
      (24, snd (tx4939_rng_read False script_dev 32 False tx_ready))) \<and>
   (4 \<le> (12::nat) \<and>
    mxc_rnga_read script_dev 12 False rnga_level5 =
      (12, snd (mxc_rnga_read script_dev 12 False rnga_level5))) \<and>
   (\<exists>v0 vs ws. tx_polled False v0 vs \<and>
      log (snd (tx4939_rng_read False script_dev 32 False tx_ready)) =
        log tx_ready @ tx_check_evs False v0 @ tx_poll_evs False vs
        @ (if tx_busy (last (v0 # vs)) then [] else tx_drain_evs False ws) \<and>
      (\<not> tx_busy (last (v0 # vs)) \<longrightarrow>
         length ws = min 3 (32 div 8) \<and> (24::int) = int (length ws * 8) \<and>
         mem (snd (tx4939_rng_read False script_dev 32 False tx_ready))
           = stored (mem tx_ready) ws)) \<and>
   (\<exists>v0 vs ps rest. rnga_polled False v0 vs \<and>
      log (snd (mxc_rnga_read script_dev 12 False rnga_level5)) =
        log rnga_level5 @ MmioRead RNGA_STATUS v0 # rnga_poll_evs vs @ rnga_drain_evs ps @ rest \<and>
      (rest = [] \<or> (\<exists>c. rest = rnga_clear_evs c)) \<and>
      (rnga_level (last (v0 # vs)) \<noteq> 0 \<and> (\<forall>p \<in> set ps. \<not> rnga_fault (snd p)) \<longrightarrow>
         length ps = min (rnga_avail (last (v0 # vs))) (12 div 4) \<and>
         (12::int) = int (length ps * 4) \<and> rest = [] \<and>
         mem (snd (mxc_rnga_read script_dev 12 False rnga_level5))
           = stored (mem rnga_level5) (map fst ps))) \<and>
   log (snd (tx4939_rng_read False script_dev 32 False tx_ready)) =
     [IrqDisable, MmioRead 0 0, IrqEnable, IrqDisable, MmioRead 24 11, MmioRead 32 22,
      MmioRead 40 33, MmioWrite 0 1, IrqEnable] \<and>
   map (mem (snd (tx4939_rng_read False script_dev 32 False tx_ready))) [0, 1, 2, 3]
     = [11, 22, 33, 0] \<and>
   log (snd (mxc_rnga_read script_dev 12 False rnga_level5)) =
     [MmioRead 4 0x500, MmioRead 12 7, MmioRead 4 0, MmioRead 12 8, MmioRead 4 0,
      MmioRead 12 9, MmioRead 4 0] \<and>
   map (mem (snd (mxc_rnga_read script_dev 12 False rnga_level5))) [0, 1, 2, 3] = [7, 8, 9, 0] \<and>
   rnga_avail 0x500 = 5"
proof -
  let ?t = "tx4939_rng_read False script_dev 32 False tx_ready"
  let ?m = "mxc_rnga_read script_dev 12 False rnga_level5"
  have a: "8 \<le> (32::nat) \<and> ?t = (24, snd ?t)"
    using tx_run_32(1) by (simp add: prod_eq_iff)
  have b: "4 \<le> (12::nat) \<and> ?m = (12, snd ?m)"
    using rnga_run_12(1) by (simp add: prod_eq_iff)
  note inst = drain_takes_min_words [of 32 False script_dev False tx_ready 24 "snd ?t"
      12 script_dev False rnga_level5 12 "snd ?m"]
  from inst a b tx_run_32(2,3) rnga_run_12(2,3,4) show ?thesis
    by blast
qed

section \<open>The bounded wait\<close>

text \<open>
  C3. The log of a call starts with one readiness check and then has at most 20 re-checks,
  each immediately preceded by the fixed delay (\<open>udelay(10)\<close> for RNGA and the ath9k
  source, \<open>ndelay(450)\<close> for TX4939); re-checks happen only when \<open>wait\<close> is set, and
  every check but the last found the source not ready. Nothing after these checks is a
  delay (or, for TX4939, another read of the status register). When \<open>wait\<close> is set and
  the last check still finds the source not ready, all 20 re-checks were made, the call
  returns 0 and did nothing else. For the ath9k source a check is one scan.
\<close>

theorem wait_is_bounded:
  "(4 \<le> maxb1 \<and> mxc_rnga_read d1 maxb1 wait1 s1 = (r1, t1) \<longrightarrow>
      (\<exists>v0 vs rest. rnga_polled wait1 v0 vs \<and>
         log t1 = log s1 @ MmioRead RNGA_STATUS v0 # rnga_poll_evs vs @ rest \<and>
         (\<forall>n. Udelay n \<notin> set rest) \<and>
         (rest = [] \<or> (\<exists>w tl. rest = MmioRead RNGA_OUTPUT_FIFO w # tl)) \<and>
         (wait1 \<and> rnga_level (last (v0 # vs)) = 0 \<longrightarrow>
            length vs = 20 \<and> r1 = 0 \<and> rest = []))) \<and>
   (8 \<le> maxb2 \<and> tx4939_rng_read c64 d2 maxb2 wait2 s2 = (r2, t2) \<longrightarrow>
      (\<exists>v0 vs rest. tx_polled wait2 v0 vs \<and>
         log t2 = log s2 @ tx_check_evs c64 v0 @ tx_poll_evs c64 vs @ rest \<and>
         (\<forall>n. Ndelay n \<notin> set rest) \<and> (\<forall>v. MmioRead TX4939_RNG_RCSR v \<notin> set rest) \<and>
         (wait2 \<and> tx_busy (last (v0 # vs)) \<longrightarrow> length vs = 20 \<and> r2 = 0 \<and> rest = []))) \<and>
   (4 \<le> maxb3 \<and> ath9k_rng_read ops maxb3 wait3 sc m = (r3, sc', m') \<longrightarrow>
      (\<exists>rs rss. length rss \<le> 20 \<and> (rss \<noteq> [] \<longrightarrow> wait3) \<and>
         log m' = log m @ scan_evs rs @ retry_evs rss \<and>
         noise_words (rng_last sc) (samples (concat (butlast (rs # rss)))) = [] \<and>
         (wait3 \<and> noise_words (rng_last sc) (samples (concat (rs # rss))) = [] \<longrightarrow>
            length rss = 20 \<and> r3 = 0)))"
proof (intro conjI impI)
  assume "4 \<le> maxb1 \<and> mxc_rnga_read d1 maxb1 wait1 s1 = (r1, t1)"
  then have run: "mxc_rnga_read d1 maxb1 wait1 s1 = (r1, t1)" and cap: "4 \<le> maxb1"
    by simp_all
  from run cap show "\<exists>v0 vs rest. rnga_polled wait1 v0 vs \<and>
         log t1 = log s1 @ MmioRead RNGA_STATUS v0 # rnga_poll_evs vs @ rest \<and>
         (\<forall>n. Udelay n \<notin> set rest) \<and>
         (rest = [] \<or> (\<exists>w tl. rest = MmioRead RNGA_OUTPUT_FIFO w # tl)) \<and>
         (wait1 \<and> rnga_level (last (v0 # vs)) = 0 \<longrightarrow>
            length vs = 20 \<and> r1 = 0 \<and> rest = [])"
  proof (cases rule: mxc_rnga_read_cases)
    case (idle v0 vs)
    then show ?thesis
      by (intro exI [of _ v0] exI [of _ vs] exI [of _ "[]"]) simp
  next
    case (full v0 vs ps)
    then show ?thesis
      using no_delay_in_rnga_drain [of _ ps] rnga_drain_evs_start [of ps]
      by (intro exI [of _ v0] exI [of _ vs] exI [of _ "rnga_drain_evs ps"]) simp
  next
    case (fault v0 vs ps w st ctrl)
    have "rnga_drain_evs (ps @ [(w, st)]) \<noteq> []"
      by (simp add: rnga_drain_evs_def)
    with fault show ?thesis
      using no_delay_in_rnga_drain [of _ "ps @ [(w, st)]"]
        rnga_drain_evs_start [of "ps @ [(w, st)]"]
      by (intro exI [of _ v0] exI [of _ vs]
          exI [of _ "rnga_drain_evs (ps @ [(w, st)]) @ rnga_clear_evs ctrl"])
        (auto simp: rnga_clear_evs_def)
  qed
next
  assume "8 \<le> maxb2 \<and> tx4939_rng_read c64 d2 maxb2 wait2 s2 = (r2, t2)"
  then have run: "tx4939_rng_read c64 d2 maxb2 wait2 s2 = (r2, t2)" and cap: "8 \<le> maxb2"
    by simp_all
  from run cap show "\<exists>v0 vs rest. tx_polled wait2 v0 vs \<and>
         log t2 = log s2 @ tx_check_evs c64 v0 @ tx_poll_evs c64 vs @ rest \<and>
         (\<forall>n. Ndelay n \<notin> set rest) \<and> (\<forall>v. MmioRead TX4939_RNG_RCSR v \<notin> set rest) \<and>
         (wait2 \<and> tx_busy (last (v0 # vs)) \<longrightarrow> length vs = 20 \<and> r2 = 0 \<and> rest = [])"
  proof (cases rule: tx4939_rng_read_cases)
    case (idle v0 vs)
    then show ?thesis
      by (intro exI [of _ v0] exI [of _ vs] exI [of _ "[]"]) simp
  next
    case (full v0 vs ws)
    then show ?thesis
      using no_poll_in_tx_drain [of _ c64 ws]
      by (intro exI [of _ v0] exI [of _ vs] exI [of _ "tx_drain_evs c64 ws"])
        (simp add: tx_drain_evs_def)
  qed
next
  assume "4 \<le> maxb3 \<and> ath9k_rng_read ops maxb3 wait3 sc m = (r3, sc', m')"
  then have run: "ath9k_rng_read ops maxb3 wait3 sc m = (r3, sc', m')" and cap: "4 \<le> maxb3"
    by simp_all
  from run cap show "\<exists>rs rss. length rss \<le> 20 \<and> (rss \<noteq> [] \<longrightarrow> wait3) \<and>
         log m' = log m @ scan_evs rs @ retry_evs rss \<and>
         noise_words (rng_last sc) (samples (concat (butlast (rs # rss)))) = [] \<and>
         (wait3 \<and> noise_words (rng_last sc) (samples (concat (rs # rss))) = [] \<longrightarrow>
            length rss = 20 \<and> r3 = 0)"
  proof (rule ath9k_rng_read_trace)
    fix rs rss
    assume "length rss \<le> 20" "rss \<noteq> [] \<longrightarrow> wait3"
      "log m' = log m @ scan_evs rs @ retry_evs rss"
      "noise_words (rng_last sc) (samples (concat (butlast (rs # rss)))) = []"
      "r3 = sint (word_of_nat (length (noise_words (rng_last sc) (samples (concat (rs # rss))))) * 4
           :: 32 word)"
      "wait3 \<and> noise_words (rng_last sc) (samples (concat (rs # rss))) = [] \<longrightarrow> length rss = 20"
    then show ?thesis
      by (intro exI [of _ rs] exI [of _ rss]) auto
  qed
qed

lemma rnga_run_never_ready:
  "fst (mxc_rnga_read script_dev 4 True rnga_never_ready) = 0"
  "log (snd (mxc_rnga_read script_dev 4 True rnga_never_ready)) =
     MmioRead 4 0 # concat (replicate 20 [Udelay 10, MmioRead 4 0])"
  by code_simp+

lemma tx_run_never_ready:
  "fst (tx4939_rng_read True script_dev 8 True tx_never_ready) = 0"
  "log (snd (tx4939_rng_read True script_dev 8 True tx_never_ready)) =
     MmioRead 0 1 # concat (replicate 20 [Ndelay 450, MmioRead 0 1])"
  by code_simp+

lemma ath_run_no_noise:
  "fst (ath9k_rng_read script_ops 4 True \<lparr>rng_last = 0\<rparr> ath_no_noise) = 0"
  "log (snd (snd (ath9k_rng_read script_ops 4 True \<lparr>rng_last = 0\<rparr> ath_no_noise))) =
     scan_evs [(0, 0)] @ concat (replicate 20 (Udelay 10 # scan_evs [(0, 0)]))"
  by code_simp+

theorem wait_is_bounded_witness:
  "(4 \<le> (4::nat) \<and>
    mxc_rnga_read script_dev 4 True rnga_never_ready =
      (0, snd (mxc_rnga_read script_dev 4 True rnga_never_ready))) \<and>
   (8 \<le> (8::nat) \<and>
    tx4939_rng_read True script_dev 8 True tx_never_ready =
      (0, snd (tx4939_rng_read True script_dev 8 True tx_never_ready))) \<and>
   (4 \<le> (4::nat) \<and>
    ath9k_rng_read script_ops 4 True \<lparr>rng_last = 0\<rparr> ath_no_noise =
      (0, fst (snd (ath9k_rng_read script_ops 4 True \<lparr>rng_last = 0\<rparr> ath_no_noise)),
       snd (snd (ath9k_rng_read script_ops 4 True \<lparr>rng_last = 0\<rparr> ath_no_noise)))) \<and>
   (\<exists>v0 vs rest. rnga_polled True v0 vs \<and>
      log (snd (mxc_rnga_read script_dev 4 True rnga_never_ready)) =
        log rnga_never_ready @ MmioRead RNGA_STATUS v0 # rnga_poll_evs vs @ rest \<and>
      (\<forall>n. Udelay n \<notin> set rest) \<and>
      (rest = [] \<or> (\<exists>w tl. rest = MmioRead RNGA_OUTPUT_FIFO w # tl)) \<and>
      (True \<and> rnga_level (last (v0 # vs)) = 0 \<longrightarrow> length vs = 20 \<and> (0::int) = 0 \<and> rest = [])) \<and>
   (\<exists>v0 vs rest. tx_polled True v0 vs \<and>
      log (snd (tx4939_rng_read True script_dev 8 True tx_never_ready)) =
        log tx_never_ready @ tx_check_evs True v0 @ tx_poll_evs True vs @ rest \<and>
      (\<forall>n. Ndelay n \<notin> set rest) \<and> (\<forall>v. MmioRead TX4939_RNG_RCSR v \<notin> set rest) \<and>
      (True \<and> tx_busy (last (v0 # vs)) \<longrightarrow> length vs = 20 \<and> (0::int) = 0 \<and> rest = [])) \<and>
   (\<exists>rs rss. length rss \<le> 20 \<and> (rss \<noteq> [] \<longrightarrow> True) \<and>
      log (snd (snd (ath9k_rng_read script_ops 4 True \<lparr>rng_last = 0\<rparr> ath_no_noise))) =
        log ath_no_noise @ scan_evs rs @ retry_evs rss \<and>
      noise_words (rng_last \<lparr>rng_last = 0\<rparr>) (samples (concat (butlast (rs # rss)))) = [] \<and>
      (True \<and> noise_words (rng_last \<lparr>rng_last = 0\<rparr>) (samples (concat (rs # rss))) = [] \<longrightarrow>
         length rss = 20 \<and> (0::int) = 0)) \<and>
   log (snd (mxc_rnga_read script_dev 4 True rnga_never_ready)) =
     MmioRead 4 0 # concat (replicate 20 [Udelay 10, MmioRead 4 0]) \<and>
   log (snd (tx4939_rng_read True script_dev 8 True tx_never_ready)) =
     MmioRead 0 1 # concat (replicate 20 [Ndelay 450, MmioRead 0 1]) \<and>
   log (snd (snd (ath9k_rng_read script_ops 4 True \<lparr>rng_last = 0\<rparr> ath_no_noise))) =
     scan_evs [(0, 0)] @ concat (replicate 20 (Udelay 10 # scan_evs [(0, 0)]))"
proof -
  let ?a = "mxc_rnga_read script_dev 4 True rnga_never_ready"
  let ?b = "tx4939_rng_read True script_dev 8 True tx_never_ready"
  let ?c = "ath9k_rng_read script_ops 4 True \<lparr>rng_last = 0\<rparr> ath_no_noise"
  have a: "4 \<le> (4::nat) \<and> ?a = (0, snd ?a)"
    using rnga_run_never_ready(1) by (simp add: prod_eq_iff)
  have b: "8 \<le> (8::nat) \<and> ?b = (0, snd ?b)"
    using tx_run_never_ready(1) by (simp add: prod_eq_iff)
  have c: "4 \<le> (4::nat) \<and> ?c = (0, fst (snd ?c), snd (snd ?c))"
    using ath_run_no_noise(1) by (simp add: prod_eq_iff)
  note inst = wait_is_bounded [of 4 script_dev True rnga_never_ready 0 "snd ?a"
      8 True script_dev True tx_never_ready 0 "snd ?b"
      4 script_ops True "\<lparr>rng_last = 0\<rparr>" ath_no_noise 0 "fst (snd ?c)" "snd (snd ?c)"]
  from inst a b c rnga_run_never_ready(2) tx_run_never_ready(2) ath_run_no_noise(2)
  show ?thesis
    by blast
qed

section \<open>A fault during the RNGA drain\<close>

text \<open>
  C4. In the log of an RNGA call the drain is a sequence of at most \<open>n\<close> pairs (FIFO read,
  status read), \<open>n\<close> being the planned word count; no pair but the last carries the error
  interrupt bit. If the last pair carries it, after \<open>k\<close> clean pairs, the drain stops there:
  the only accesses that follow are one read of the control register and one write of the
  value read with the clear-interrupt bit set, and the call returns \<open>k * 4\<close>, which is not
  an error code. Otherwise no access follows the drain.
\<close>

theorem fault_gives_partial_result:
  "4 \<le> maxb \<and> mxc_rnga_read d maxb wait s = (r, t) \<longrightarrow>
     (\<exists>v0 vs ps rest. rnga_polled wait v0 vs \<and>
        log t = log s @ MmioRead RNGA_STATUS v0 # rnga_poll_evs vs @ rnga_drain_evs ps @ rest \<and>
        length ps \<le> min (rnga_avail (last (v0 # vs))) (maxb div 4) \<and>
        (\<forall>p \<in> set (butlast ps). \<not> rnga_fault (snd p)) \<and>
        (if ps \<noteq> [] \<and> rnga_fault (snd (last ps))
         then r = int ((length ps - 1) * 4) \<and> 0 \<le> r \<and> (\<exists>c. rest = rnga_clear_evs c)
         else rest = []))"
proof
  assume "4 \<le> maxb \<and> mxc_rnga_read d maxb wait s = (r, t)"
  then have run: "mxc_rnga_read d maxb wait s = (r, t)" and cap: "4 \<le> maxb"
    by simp_all
  from run cap show "\<exists>v0 vs ps rest. rnga_polled wait v0 vs \<and>
        log t = log s @ MmioRead RNGA_STATUS v0 # rnga_poll_evs vs @ rnga_drain_evs ps @ rest \<and>
        length ps \<le> min (rnga_avail (last (v0 # vs))) (maxb div 4) \<and>
        (\<forall>p \<in> set (butlast ps). \<not> rnga_fault (snd p)) \<and>
        (if ps \<noteq> [] \<and> rnga_fault (snd (last ps))
         then r = int ((length ps - 1) * 4) \<and> 0 \<le> r \<and> (\<exists>c. rest = rnga_clear_evs c)
         else rest = [])"
  proof (cases rule: mxc_rnga_read_cases)
    case (idle v0 vs)
    then show ?thesis
      by (intro exI [of _ v0] exI [of _ vs] exI [of _ "[]"] exI [of _ "[]"])
        (simp add: rnga_drain_evs_def)
  next
    case (full v0 vs ps)
    then have bl: "\<forall>p \<in> set (butlast ps). \<not> rnga_fault (snd p)"
      by (meson in_set_butlastD)
    from full have nf: "\<not> (ps \<noteq> [] \<and> rnga_fault (snd (last ps)))"
      by auto
    have "(if ps \<noteq> [] \<and> rnga_fault (snd (last ps))
         then r = int ((length ps - 1) * 4) \<and> 0 \<le> r \<and> (\<exists>c. [] = rnga_clear_evs c)
         else [] = ([] :: 32 word event list))"
      using nf by (simp only: if_False)
    with full bl show ?thesis
      by (intro exI [of _ v0] exI [of _ vs] exI [of _ ps] exI [of _ "[]"]) simp
  next
    case (fault v0 vs ps w st ctrl)
    then show ?thesis
      by (intro exI [of _ v0] exI [of _ vs] exI [of _ "ps @ [(w, st)]"]
          exI [of _ "rnga_clear_evs ctrl"]) (auto simp: rnga_clear_evs_def)
  qed
qed

lemma rnga_run_fault_third:
  "fst (mxc_rnga_read script_dev 20 False rnga_fault_third) = 8"
  "log (snd (mxc_rnga_read script_dev 20 False rnga_fault_third)) =
     [MmioRead 4 0x500, MmioRead 12 7, MmioRead 4 0, MmioRead 12 8, MmioRead 4 0,
      MmioRead 12 9, MmioRead 4 8, MmioRead 0 3, MmioWrite 0 11]"
  "map (mem (snd (mxc_rnga_read script_dev 20 False rnga_fault_third))) [0, 1, 2, 3]
     = [7, 8, 9, 0]"
  by code_simp+

theorem fault_gives_partial_result_witness:
  "(4 \<le> (20::nat) \<and>
    mxc_rnga_read script_dev 20 False rnga_fault_third =
      (8, snd (mxc_rnga_read script_dev 20 False rnga_fault_third))) \<and>
   (\<exists>v0 vs ps rest. rnga_polled False v0 vs \<and>
      log (snd (mxc_rnga_read script_dev 20 False rnga_fault_third)) =
        log rnga_fault_third @ MmioRead RNGA_STATUS v0 # rnga_poll_evs vs @ rnga_drain_evs ps
        @ rest \<and>
      length ps \<le> min (rnga_avail (last (v0 # vs))) (20 div 4) \<and>
      (\<forall>p \<in> set (butlast ps). \<not> rnga_fault (snd p)) \<and>
      (if ps \<noteq> [] \<and> rnga_fault (snd (last ps))
       then (8::int) = int ((length ps - 1) * 4) \<and> (0::int) \<le> 8 \<and> (\<exists>c. rest = rnga_clear_evs c)
       else rest = [])) \<and>
   log (snd (mxc_rnga_read script_dev 20 False rnga_fault_third)) =
     [MmioRead 4 0x500, MmioRead 12 7, MmioRead 4 0, MmioRead 12 8, MmioRead 4 0,
      MmioRead 12 9, MmioRead 4 8, MmioRead 0 3, MmioWrite 0 11] \<and>
   rnga_fault 8 \<and> \<not> rnga_fault 0 \<and> rnga_clear_evs 3 = [MmioRead 0 3, MmioWrite 0 11]"
proof -
  let ?a = "mxc_rnga_read script_dev 20 False rnga_fault_third"
  have a: "4 \<le> (20::nat) \<and> ?a = (8, snd ?a)"
    using rnga_run_fault_third(1) by (simp add: prod_eq_iff)
  have e: "rnga_fault 8" "\<not> rnga_fault 0" "rnga_clear_evs 3 = [MmioRead 0 3, MmioWrite 0 11]"
    by code_simp+
  note inst = fault_gives_partial_result [of 20 script_dev False rnga_fault_third 8 "snd ?a"]
  from inst a e rnga_run_fault_third(2) show ?thesis
    by blast
qed

section \<open>Not ready and not allowed to wait\<close>

text \<open>
  C6. A call with \<open>wait\<close> false and a capacity of at least one word whose readiness check
  finds the source not ready returns 0, which is not an error code, and its log holds
  that one check and nothing else: no delay was made, and the buffer is as before. For
  RNGA not ready means that the level field of the status word is zero, for TX4939 that
  the start bit of the control and status register is still set, for the ath9k source
  that the scan found no valid pair.
\<close>

theorem no_wait_returns_zero:
  "(4 \<le> maxb1 \<and> rnga_level (fst (dev_read d1 RNGA_STATUS (hw s1))) = 0 \<and>
    mxc_rnga_read d1 maxb1 False s1 = (r1, t1) \<longrightarrow>
      r1 = 0 \<and> log t1 = log s1 @ [MmioRead RNGA_STATUS (fst (dev_read d1 RNGA_STATUS (hw s1)))] \<and>
      mem t1 = mem s1) \<and>
   (8 \<le> maxb2 \<and> tx_busy (fst (dev_read d2 TX4939_RNG_RCSR (hw s2))) \<and>
    tx4939_rng_read c64 d2 maxb2 False s2 = (r2, t2) \<longrightarrow>
      r2 = 0 \<and> log t2 = log s2 @ tx_check_evs c64 (fst (dev_read d2 TX4939_RNG_RCSR (hw s2))) \<and>
      mem t2 = mem s2) \<and>
   (4 \<le> maxb3 \<and> ath9k_rng_read ops maxb3 False sc m = (r3, sc', m') \<longrightarrow>
      (\<exists>rs. length rs = unat (ath_words maxb3) \<and> log m' = log m @ scan_evs rs \<and>
         (noise_words (rng_last sc) (samples rs) = [] \<longrightarrow> r3 = 0 \<and> mem m' = mem m)))"
proof -
  have A: "4 \<le> maxb1 \<and> rnga_level (fst (dev_read d1 RNGA_STATUS (hw s1))) = 0 \<and>
    mxc_rnga_read d1 maxb1 False s1 = (r1, t1) \<longrightarrow>
      r1 = 0 \<and> log t1 = log s1 @ [MmioRead RNGA_STATUS (fst (dev_read d1 RNGA_STATUS (hw s1)))] \<and>
      mem t1 = mem s1"
  proof
    assume "4 \<le> maxb1 \<and> rnga_level (fst (dev_read d1 RNGA_STATUS (hw s1))) = 0 \<and>
      mxc_rnga_read d1 maxb1 False s1 = (r1, t1)"
    then have run: "mxc_rnga_read d1 maxb1 False s1 = (r1, t1)" and cap: "4 \<le> maxb1"
      and nr: "rnga_level (fst (dev_read d1 RNGA_STATUS (hw s1))) = 0"
      by simp_all
    from run cap show "r1 = 0 \<and>
        log t1 = log s1 @ [MmioRead RNGA_STATUS (fst (dev_read d1 RNGA_STATUS (hw s1)))] \<and>
        mem t1 = mem s1"
    proof (cases rule: mxc_rnga_read_cases)
      case (idle v0 vs)
      then have "vs = []" by (simp add: rnga_polled_def)
      with idle show ?thesis by (simp add: rnga_poll_evs_def)
    next
      case (full v0 vs ps)
      then have "vs = []" by (simp add: rnga_polled_def)
      with full nr show ?thesis by simp
    next
      case (fault v0 vs ps w st ctrl)
      then have "vs = []" by (simp add: rnga_polled_def)
      with fault nr show ?thesis by simp
    qed
  qed
  have B: "8 \<le> maxb2 \<and> tx_busy (fst (dev_read d2 TX4939_RNG_RCSR (hw s2))) \<and>
    tx4939_rng_read c64 d2 maxb2 False s2 = (r2, t2) \<longrightarrow>
      r2 = 0 \<and> log t2 = log s2 @ tx_check_evs c64 (fst (dev_read d2 TX4939_RNG_RCSR (hw s2))) \<and>
      mem t2 = mem s2"
  proof
    assume "8 \<le> maxb2 \<and> tx_busy (fst (dev_read d2 TX4939_RNG_RCSR (hw s2))) \<and>
      tx4939_rng_read c64 d2 maxb2 False s2 = (r2, t2)"
    then have run: "tx4939_rng_read c64 d2 maxb2 False s2 = (r2, t2)" and cap: "8 \<le> maxb2"
      and nr: "tx_busy (fst (dev_read d2 TX4939_RNG_RCSR (hw s2)))"
      by simp_all
    from run cap show "r2 = 0 \<and>
        log t2 = log s2 @ tx_check_evs c64 (fst (dev_read d2 TX4939_RNG_RCSR (hw s2))) \<and>
        mem t2 = mem s2"
    proof (cases rule: tx4939_rng_read_cases)
      case (idle v0 vs)
      then have "vs = []" by (simp add: tx_polled_def)
      with idle show ?thesis by (simp add: tx_poll_evs_def)
    next
      case (full v0 vs ws)
      then have "vs = []" by (simp add: tx_polled_def)
      with full nr show ?thesis by simp
    qed
  qed
  have C: "4 \<le> maxb3 \<and> ath9k_rng_read ops maxb3 False sc m = (r3, sc', m') \<longrightarrow>
      (\<exists>rs. length rs = unat (ath_words maxb3) \<and> log m' = log m @ scan_evs rs \<and>
         (noise_words (rng_last sc) (samples rs) = [] \<longrightarrow> r3 = 0 \<and> mem m' = mem m))"
  proof
    assume "4 \<le> maxb3 \<and> ath9k_rng_read ops maxb3 False sc m = (r3, sc', m')"
    then have run: "ath9k_rng_read ops maxb3 False sc m = (r3, sc', m')" and cap: "4 \<le> maxb3"
      by simp_all
    from run cap show "\<exists>rs. length rs = unat (ath_words maxb3) \<and> log m' = log m @ scan_evs rs \<and>
           (noise_words (rng_last sc) (samples rs) = [] \<longrightarrow> r3 = 0 \<and> mem m' = mem m)"
    proof (rule ath9k_rng_read_trace)
      fix rs rss
      assume a: "length rs = unat (ath_words maxb3)" "rss \<noteq> [] \<longrightarrow> False"
        "log m' = log m @ scan_evs rs @ retry_evs rss"
        "r3 = sint (word_of_nat (length (noise_words (rng_last sc) (samples (concat (rs # rss))))) * 4
             :: 32 word)"
        "mem m' = store_words (mem m) 0 (noise_words (rng_last sc) (samples (concat (rs # rss))))"
      then have "rss = []" by blast
      with a show ?thesis
        by (intro exI [of _ rs]) (auto simp: retry_evs_def)
    qed
  qed
  from A B C show ?thesis by blast
qed

lemma no_wait_runs:
  "fst (mxc_rnga_read script_dev 16 False rnga_empty) = 0"
  "log (snd (mxc_rnga_read script_dev 16 False rnga_empty)) = [MmioRead 4 0x0f]"
  "fst (tx4939_rng_read False script_dev 24 False tx_busy_now) = 0"
  "log (snd (tx4939_rng_read False script_dev 24 False tx_busy_now))
     = [IrqDisable, MmioRead 0 1, IrqEnable]"
  "fst (ath9k_rng_read script_ops 8 False \<lparr>rng_last = 0\<rparr> ath_stuck) = 0"
  "log (snd (snd (ath9k_rng_read script_ops 8 False \<lparr>rng_last = 0\<rparr> ath_stuck)))
     = scan_evs [(5, 5), (0xffff, 6)]"
  "rnga_level (fst (dev_read script_dev RNGA_STATUS (hw rnga_empty))) = 0"
  "tx_busy (fst (dev_read script_dev TX4939_RNG_RCSR (hw tx_busy_now)))"
  "noise_words 0 (samples [(5, 5), (0xffff, 6)]) = []"
  "tx_check_evs False (fst (dev_read script_dev TX4939_RNG_RCSR (hw tx_busy_now)))
     = [IrqDisable, MmioRead 0 1, IrqEnable]"
  by code_simp+

theorem no_wait_returns_zero_witness:
  "(4 \<le> (16::nat) \<and> rnga_level (fst (dev_read script_dev RNGA_STATUS (hw rnga_empty))) = 0 \<and>
    mxc_rnga_read script_dev 16 False rnga_empty =
      (0, snd (mxc_rnga_read script_dev 16 False rnga_empty))) \<and>
   (8 \<le> (24::nat) \<and> tx_busy (fst (dev_read script_dev TX4939_RNG_RCSR (hw tx_busy_now))) \<and>
    tx4939_rng_read False script_dev 24 False tx_busy_now =
      (0, snd (tx4939_rng_read False script_dev 24 False tx_busy_now))) \<and>
   (4 \<le> (8::nat) \<and>
    ath9k_rng_read script_ops 8 False \<lparr>rng_last = 0\<rparr> ath_stuck =
      (0, fst (snd (ath9k_rng_read script_ops 8 False \<lparr>rng_last = 0\<rparr> ath_stuck)),
       snd (snd (ath9k_rng_read script_ops 8 False \<lparr>rng_last = 0\<rparr> ath_stuck)))) \<and>
   log (snd (mxc_rnga_read script_dev 16 False rnga_empty)) =
     log rnga_empty @ [MmioRead RNGA_STATUS (fst (dev_read script_dev RNGA_STATUS (hw rnga_empty)))] \<and>
   mem (snd (mxc_rnga_read script_dev 16 False rnga_empty)) = mem rnga_empty \<and>
   log (snd (tx4939_rng_read False script_dev 24 False tx_busy_now)) =
     log tx_busy_now
     @ tx_check_evs False (fst (dev_read script_dev TX4939_RNG_RCSR (hw tx_busy_now))) \<and>
   mem (snd (tx4939_rng_read False script_dev 24 False tx_busy_now)) = mem tx_busy_now \<and>
   (\<exists>rs. length rs = unat (ath_words 8) \<and>
      log (snd (snd (ath9k_rng_read script_ops 8 False \<lparr>rng_last = 0\<rparr> ath_stuck)))
        = log ath_stuck @ scan_evs rs \<and>
      (noise_words (rng_last \<lparr>rng_last = 0\<rparr>) (samples rs) = [] \<longrightarrow>
         (0::int) = 0 \<and>
         mem (snd (snd (ath9k_rng_read script_ops 8 False \<lparr>rng_last = 0\<rparr> ath_stuck)))
           = mem ath_stuck)) \<and>
   log (snd (mxc_rnga_read script_dev 16 False rnga_empty)) = [MmioRead 4 0x0f] \<and>
   log (snd (tx4939_rng_read False script_dev 24 False tx_busy_now))
     = [IrqDisable, MmioRead 0 1, IrqEnable] \<and>
   log (snd (snd (ath9k_rng_read script_ops 8 False \<lparr>rng_last = 0\<rparr> ath_stuck)))
     = scan_evs [(5, 5), (0xffff, 6)] \<and>
   noise_words 0 (samples [(5, 5), (0xffff, 6)]) = []"
proof -
  let ?a = "mxc_rnga_read script_dev 16 False rnga_empty"
  let ?b = "tx4939_rng_read False script_dev 24 False tx_busy_now"
  let ?c = "ath9k_rng_read script_ops 8 False \<lparr>rng_last = 0\<rparr> ath_stuck"
  have a: "4 \<le> (16::nat) \<and> rnga_level (fst (dev_read script_dev RNGA_STATUS (hw rnga_empty))) = 0 \<and>
      ?a = (0, snd ?a)"
    using no_wait_runs(1,7) by (simp add: prod_eq_iff)
  have b: "8 \<le> (24::nat) \<and> tx_busy (fst (dev_read script_dev TX4939_RNG_RCSR (hw tx_busy_now))) \<and>
      ?b = (0, snd ?b)"
    using no_wait_runs(3,8) by (simp add: prod_eq_iff)
  have c: "4 \<le> (8::nat) \<and> ?c = (0, fst (snd ?c), snd (snd ?c))"
    using no_wait_runs(5) by (simp add: prod_eq_iff)
  note inst = no_wait_returns_zero [of 16 script_dev rnga_empty 0 "snd ?a"
      24 script_dev tx_busy_now False 0 "snd ?b"
      8 script_ops "\<lparr>rng_last = 0\<rparr>" ath_stuck 0 "fst (snd ?c)" "snd (snd ?c)"]
  from inst a b c no_wait_runs(2,4,6,9) show ?thesis
    by blast
qed

section \<open>What a call writes into the buffer\<close>

text \<open>
  C10. In an RNGA call whose drain ends with a status check that carries the error
  interrupt bit, the word read from the FIFO just before that check is in the buffer at
  the index \<open>k\<close> that equals the returned byte count divided by 4, although the result
  \<open>k * 4\<close> does not count it; the buffer is unchanged at every index above \<open>k\<close> (and
  below 0). In every other call of the three drivers that has a capacity of at least one
  word, the buffer is unchanged at every index at or above the returned word count. For
  the ath9k source the capacity is taken below \<open>2 ^ 31\<close> bytes: these are the capacities
  whose byte count the \<open>int\<close> result can report, and the statement fails beyond them,
  as the run of \<open>2 ^ 32\<close> bytes after the theorem shows.
\<close>

theorem buffer_frame:
  "(4 \<le> maxb1 \<and> mxc_rnga_read d1 maxb1 wait1 s1 = (r1, t1) \<longrightarrow>
      (\<exists>v0 vs ps rest.
         log t1 = log s1 @ MmioRead RNGA_STATUS v0 # rnga_poll_evs vs @ rnga_drain_evs ps @ rest \<and>
         (if ps \<noteq> [] \<and> rnga_fault (snd (last ps))
          then (\<exists>c. rest = rnga_clear_evs c) \<and> r1 = int ((length ps - 1) * 4) \<and>
               mem t1 (r1 div 4) = fst (last ps) \<and>
               (\<forall>i. i < 0 \<or> r1 div 4 < i \<longrightarrow> mem t1 i = mem s1 i)
          else rest = [] \<and> (\<forall>i. i < 0 \<or> r1 div 4 \<le> i \<longrightarrow> mem t1 i = mem s1 i)))) \<and>
   (8 \<le> maxb2 \<and> tx4939_rng_read c64 d2 maxb2 wait2 s2 = (r2, t2) \<longrightarrow>
      (\<forall>i. i < 0 \<or> r2 div 8 \<le> i \<longrightarrow> mem t2 i = mem s2 i)) \<and>
   (4 \<le> maxb3 \<and> maxb3 < 2 ^ 31 \<and> ath9k_rng_read ops maxb3 wait3 sc m = (r3, sc', m') \<longrightarrow>
      (\<forall>i. i < 0 \<or> r3 div 4 \<le> i \<longrightarrow> mem m' i = mem m i))"
proof -
  have A: "4 \<le> maxb1 \<and> mxc_rnga_read d1 maxb1 wait1 s1 = (r1, t1) \<longrightarrow>
      (\<exists>v0 vs ps rest.
         log t1 = log s1 @ MmioRead RNGA_STATUS v0 # rnga_poll_evs vs @ rnga_drain_evs ps @ rest \<and>
         (if ps \<noteq> [] \<and> rnga_fault (snd (last ps))
          then (\<exists>c. rest = rnga_clear_evs c) \<and> r1 = int ((length ps - 1) * 4) \<and>
               mem t1 (r1 div 4) = fst (last ps) \<and>
               (\<forall>i. i < 0 \<or> r1 div 4 < i \<longrightarrow> mem t1 i = mem s1 i)
          else rest = [] \<and> (\<forall>i. i < 0 \<or> r1 div 4 \<le> i \<longrightarrow> mem t1 i = mem s1 i)))"
  proof
    assume "4 \<le> maxb1 \<and> mxc_rnga_read d1 maxb1 wait1 s1 = (r1, t1)"
    then have run: "mxc_rnga_read d1 maxb1 wait1 s1 = (r1, t1)" and cap: "4 \<le> maxb1"
      by simp_all
    from run cap show "\<exists>v0 vs ps rest.
         log t1 = log s1 @ MmioRead RNGA_STATUS v0 # rnga_poll_evs vs @ rnga_drain_evs ps @ rest \<and>
         (if ps \<noteq> [] \<and> rnga_fault (snd (last ps))
          then (\<exists>c. rest = rnga_clear_evs c) \<and> r1 = int ((length ps - 1) * 4) \<and>
               mem t1 (r1 div 4) = fst (last ps) \<and>
               (\<forall>i. i < 0 \<or> r1 div 4 < i \<longrightarrow> mem t1 i = mem s1 i)
          else rest = [] \<and> (\<forall>i. i < 0 \<or> r1 div 4 \<le> i \<longrightarrow> mem t1 i = mem s1 i))"
    proof (cases rule: mxc_rnga_read_cases)
      case (idle v0 vs)
      then show ?thesis
        by (intro exI [of _ v0] exI [of _ vs] exI [of _ "[]"] exI [of _ "[]"])
          (simp add: rnga_drain_evs_def)
    next
      case (full v0 vs ps)
      from full have nf: "\<not> (ps \<noteq> [] \<and> rnga_fault (snd (last ps)))"
        by auto
      from full have fr: "\<forall>i. i < 0 \<or> r1 div 4 \<le> i \<longrightarrow> mem t1 i = mem s1 i"
        by (auto simp: stored_def)
      from full fr show ?thesis
        by (intro exI [of _ v0] exI [of _ vs] exI [of _ ps] exI [of _ "[]"])
          (simp add: if_not_P [OF nf])
    next
      case (fault v0 vs ps w st ctrl)
      from fault have k: "r1 div 4 = int (length ps)" by simp
      have at: "mem t1 (r1 div 4) = w"
        using fault(9) k by (simp add: stored_def nth_append)
      have fr: "\<forall>i. i < 0 \<or> r1 div 4 < i \<longrightarrow> mem t1 i = mem s1 i"
        using fault(9) k by (auto simp: stored_def)
      from fault at fr show ?thesis
        by (intro exI [of _ v0] exI [of _ vs] exI [of _ "ps @ [(w, st)]"]
            exI [of _ "rnga_clear_evs ctrl"]) (auto simp: rnga_clear_evs_def)
    qed
  qed
  have B: "8 \<le> maxb2 \<and> tx4939_rng_read c64 d2 maxb2 wait2 s2 = (r2, t2) \<longrightarrow>
      (\<forall>i. i < 0 \<or> r2 div 8 \<le> i \<longrightarrow> mem t2 i = mem s2 i)"
  proof
    assume "8 \<le> maxb2 \<and> tx4939_rng_read c64 d2 maxb2 wait2 s2 = (r2, t2)"
    then have run: "tx4939_rng_read c64 d2 maxb2 wait2 s2 = (r2, t2)" and cap: "8 \<le> maxb2"
      by simp_all
    from run cap show "\<forall>i. i < 0 \<or> r2 div 8 \<le> i \<longrightarrow> mem t2 i = mem s2 i"
      by (cases rule: tx4939_rng_read_cases) (auto simp: stored_def)
  qed
  have C: "4 \<le> maxb3 \<and> maxb3 < 2 ^ 31 \<and> ath9k_rng_read ops maxb3 wait3 sc m = (r3, sc', m') \<longrightarrow>
      (\<forall>i. i < 0 \<or> r3 div 4 \<le> i \<longrightarrow> mem m' i = mem m i)"
  proof
    assume "4 \<le> maxb3 \<and> maxb3 < 2 ^ 31 \<and> ath9k_rng_read ops maxb3 wait3 sc m = (r3, sc', m')"
    then have run: "ath9k_rng_read ops maxb3 wait3 sc m = (r3, sc', m')" and cap: "4 \<le> maxb3"
      and small: "maxb3 < 2 ^ 31"
      by simp_all
    from run cap small show "\<forall>i. i < 0 \<or> r3 div 4 \<le> i \<longrightarrow> mem m' i = mem m i"
      by (rule ath9k_rng_read_small) (auto simp: stored_def)
  qed
  from A B C show ?thesis by blast
qed

lemma frame_runs:
  "fst (mxc_rnga_read script_dev 20 False rnga_fault_third) = 8"
  "map (mem (snd (mxc_rnga_read script_dev 20 False rnga_fault_third))) [0, 1, 2, 3]
     = [7, 8, 9, 0]"
  "fst (tx4939_rng_read False script_dev 32 False tx_ready) = 24"
  "fst (ath9k_rng_read script_ops 12 False \<lparr>rng_last = 0\<rparr> ath_two_of_three) = 8"
  "map (mem (snd (snd (ath9k_rng_read script_ops 12 False \<lparr>rng_last = 0\<rparr> ath_two_of_three))))
     [0, 1, 2] = [0x10002, 0x50006, 0]"
  by code_simp+

theorem buffer_frame_witness:
  "(4 \<le> (20::nat) \<and>
    mxc_rnga_read script_dev 20 False rnga_fault_third =
      (8, snd (mxc_rnga_read script_dev 20 False rnga_fault_third))) \<and>
   (8 \<le> (32::nat) \<and>
    tx4939_rng_read False script_dev 32 False tx_ready =
      (24, snd (tx4939_rng_read False script_dev 32 False tx_ready))) \<and>
   (4 \<le> (12::nat) \<and> (12::nat) < 2 ^ 31 \<and>
    ath9k_rng_read script_ops 12 False \<lparr>rng_last = 0\<rparr> ath_two_of_three =
      (8, fst (snd (ath9k_rng_read script_ops 12 False \<lparr>rng_last = 0\<rparr> ath_two_of_three)),
       snd (snd (ath9k_rng_read script_ops 12 False \<lparr>rng_last = 0\<rparr> ath_two_of_three)))) \<and>
   (\<exists>v0 vs ps rest.
      log (snd (mxc_rnga_read script_dev 20 False rnga_fault_third)) =
        log rnga_fault_third @ MmioRead RNGA_STATUS v0 # rnga_poll_evs vs @ rnga_drain_evs ps
        @ rest \<and>
      (if ps \<noteq> [] \<and> rnga_fault (snd (last ps))
       then (\<exists>c. rest = rnga_clear_evs c) \<and> (8::int) = int ((length ps - 1) * 4) \<and>
            mem (snd (mxc_rnga_read script_dev 20 False rnga_fault_third)) (8 div 4)
              = fst (last ps) \<and>
            (\<forall>i. i < 0 \<or> 8 div 4 < i \<longrightarrow>
               mem (snd (mxc_rnga_read script_dev 20 False rnga_fault_third)) i
                 = mem rnga_fault_third i)
       else rest = [] \<and>
            (\<forall>i. i < 0 \<or> 8 div 4 \<le> i \<longrightarrow>
               mem (snd (mxc_rnga_read script_dev 20 False rnga_fault_third)) i
                 = mem rnga_fault_third i))) \<and>
   mem (snd (tx4939_rng_read False script_dev 32 False tx_ready)) 3 = mem tx_ready 3 \<and>
   mem (snd (snd (ath9k_rng_read script_ops 12 False \<lparr>rng_last = 0\<rparr> ath_two_of_three))) 2
     = mem ath_two_of_three 2 \<and>
   map (mem (snd (mxc_rnga_read script_dev 20 False rnga_fault_third))) [0, 1, 2, 3]
     = [7, 8, 9, 0] \<and>
   map (mem (snd (snd (ath9k_rng_read script_ops 12 False \<lparr>rng_last = 0\<rparr> ath_two_of_three))))
     [0, 1, 2] = [0x10002, 0x50006, 0]"
proof -
  let ?a = "mxc_rnga_read script_dev 20 False rnga_fault_third"
  let ?b = "tx4939_rng_read False script_dev 32 False tx_ready"
  let ?c = "ath9k_rng_read script_ops 12 False \<lparr>rng_last = 0\<rparr> ath_two_of_three"
  have a: "4 \<le> (20::nat) \<and> ?a = (8, snd ?a)"
    using frame_runs(1) by (simp add: prod_eq_iff)
  have b: "8 \<le> (32::nat) \<and> ?b = (24, snd ?b)"
    using frame_runs(3) by (simp add: prod_eq_iff)
  have c: "4 \<le> (12::nat) \<and> (12::nat) < 2 ^ 31 \<and> ?c = (8, fst (snd ?c), snd (snd ?c))"
    using frame_runs(4) by (simp add: prod_eq_iff)
  note inst = buffer_frame [of 20 script_dev False rnga_fault_third 8 "snd ?a"
      32 False script_dev False tx_ready 24 "snd ?b"
      12 script_ops False "\<lparr>rng_last = 0\<rparr>" ath_two_of_three 8 "fst (snd ?c)" "snd (snd ?c)"]
  from inst b have "\<forall>i. i < 0 \<or> 24 div 8 \<le> i \<longrightarrow> mem (snd ?b) i = mem tx_ready i"
    by blast
  then have tb: "mem (snd ?b) 3 = mem tx_ready 3"
    by simp
  from inst c have "\<forall>i. i < 0 \<or> 8 div 4 \<le> i \<longrightarrow> mem (snd (snd ?c)) i = mem ath_two_of_three i"
    by blast
  then have tc: "mem (snd (snd ?c)) 2 = mem ath_two_of_three 2"
    by simp
  from inst a b c tb tc frame_runs(2,5) show ?thesis
    by blast
qed

text \<open>
  C10 at a capacity of \<open>2 ^ 32\<close> bytes. The ath9k read of the alternating device
  returns 0, the low 32 bits of the byte count of the \<open>2 ^ 30\<close> words it stored, and
  word 0 of the buffer has changed from 0 to \<open>0x10002\<close>: an index at or above the
  returned word count is written, so the frame statement does not extend to every
  capacity.
\<close>

theorem buffer_frame_beyond_int_range:
  "(4::nat) \<le> 2 ^ 32 \<and>
   fst (ath9k_rng_read alternating_ops (2 ^ 32) False \<lparr>rng_last = 0\<rparr> ath_alternating) = 0 \<and>
   mem ath_alternating 0 = 0 \<and>
   mem (snd (snd (ath9k_rng_read alternating_ops (2 ^ 32) False \<lparr>rng_last = 0\<rparr>
     ath_alternating))) 0 = 0x10002 \<and>
   \<not> (\<forall>i. i < 0 \<or>
          fst (ath9k_rng_read alternating_ops (2 ^ 32) False \<lparr>rng_last = 0\<rparr> ath_alternating)
            div 4 \<le> i \<longrightarrow>
          mem (snd (snd (ath9k_rng_read alternating_ops (2 ^ 32) False \<lparr>rng_last = 0\<rparr>
            ath_alternating))) i = mem ath_alternating i)"
proof -
  let ?run = "ath9k_rng_read alternating_ops (2 ^ 32) False \<lparr>rng_last = 0\<rparr> ath_alternating"
  have before: "mem ath_alternating 0 = 0"
    by (simp add: ath_alternating_def boot_def)
  have changed: "mem (snd (snd ?run)) 0 \<noteq> mem ath_alternating 0"
    using alternating_read(2) before by simp
  have "fst ?run div 4 \<le> 0"
    by (simp only: alternating_read(1))
  with changed have no: "\<not> (\<forall>i. i < 0 \<or> fst ?run div 4 \<le> i \<longrightarrow>
      mem (snd (snd ?run)) i = mem ath_alternating i)"
    by blast
  have "(4::nat) \<le> 2 ^ 32" by simp
  with alternating_read(1,2) before no show ?thesis
    by blast
qed

section \<open>The result of the ath9k source\<close>

text \<open>
  C7. A read of the ath9k source with a capacity of \<open>maxb\<close> bytes (at least 4, and
  below \<open>2 ^ 31\<close>, so that the \<open>int\<close> result can report the byte count) makes one
  scan, and under \<open>wait\<close> up to 20 more while the scans find nothing. Every scan
  examines exactly \<open>maxb div 4\<close> pairs of samples. The result is 4 times the number of
  valid pairs of the last scan, validity being judged with the sample that precedes each
  pair, across scans; the words of these pairs are the new contents of the buffer. This
  number can be anything from 0 to \<open>maxb div 4\<close>: the request is not filled up. Without
  \<open>wait\<close> there is one scan and no delay, whatever it finds. The bound on the capacity
  is needed: the run of \<open>2 ^ 32\<close> bytes after the theorem returns 0 with \<open>2 ^ 30\<close>
  valid pairs stored.
\<close>

theorem noise_read_counts_valid_pairs:
  "4 \<le> maxb \<and> maxb < 2 ^ 31 \<and> ath9k_rng_read ops maxb wait sc m = (r, sc', m') \<longrightarrow>
     (\<exists>rs rss. length rs = maxb div 4 \<and> (\<forall>x \<in> set rss. length x = maxb div 4) \<and>
        length rss \<le> 20 \<and> (rss \<noteq> [] \<longrightarrow> wait) \<and>
        log m' = log m @ scan_evs rs @ retry_evs rss \<and>
        noise_words (rng_last sc) (samples (concat (butlast (rs # rss)))) = [] \<and>
        r = int (length (noise_words
                   (last_sample (rng_last sc) (samples (concat (butlast (rs # rss)))))
                   (samples (last (rs # rss)))) * 4) \<and>
        r \<le> int (maxb div 4 * 4) \<and>
        mem m' = stored (mem m)
                   (noise_words (last_sample (rng_last sc) (samples (concat (butlast (rs # rss)))))
                      (samples (last (rs # rss)))))"
proof
  assume "4 \<le> maxb \<and> maxb < 2 ^ 31 \<and> ath9k_rng_read ops maxb wait sc m = (r, sc', m')"
  then have run: "ath9k_rng_read ops maxb wait sc m = (r, sc', m')" and cap: "4 \<le> maxb"
    and small: "maxb < 2 ^ 31"
    by simp_all
  from run cap small show "\<exists>rs rss. length rs = maxb div 4 \<and>
        (\<forall>x \<in> set rss. length x = maxb div 4) \<and>
        length rss \<le> 20 \<and> (rss \<noteq> [] \<longrightarrow> wait) \<and>
        log m' = log m @ scan_evs rs @ retry_evs rss \<and>
        noise_words (rng_last sc) (samples (concat (butlast (rs # rss)))) = [] \<and>
        r = int (length (noise_words
                   (last_sample (rng_last sc) (samples (concat (butlast (rs # rss)))))
                   (samples (last (rs # rss)))) * 4) \<and>
        r \<le> int (maxb div 4 * 4) \<and>
        mem m' = stored (mem m)
                   (noise_words (last_sample (rng_last sc) (samples (concat (butlast (rs # rss)))))
                      (samples (last (rs # rss))))"
  proof (rule ath9k_rng_read_small)
    fix rs rss
    let ?all = "noise_words (rng_last sc) (samples (concat (rs # rss)))"
    let ?lst = "noise_words (last_sample (rng_last sc) (samples (concat (butlast (rs # rss)))))
        (samples (last (rs # rss)))"
    assume a: "length rs = maxb div 4" "\<forall>x \<in> set rss. length x = maxb div 4"
      "length rss \<le> 20" "rss \<noteq> [] \<longrightarrow> wait"
      "log m' = log m @ scan_evs rs @ retry_evs rss"
      "noise_words (rng_last sc) (samples (concat (butlast (rs # rss)))) = []"
      "r = int (length ?all * 4)" "length ?all \<le> maxb div 4"
      "mem m' = stored (mem m) ?all"
    have "concat (rs # rss) = concat (butlast (rs # rss)) @ last (rs # rss)"
      by (rule concat_butlast_last) simp
    then have "?all = noise_words (rng_last sc)
        (samples (concat (butlast (rs # rss))) @ samples (last (rs # rss)))"
      by (simp only: samples_simps)
    with a(6) have eq: "?all = ?lst"
      by (simp only: noise_words_append append_Nil)
    from a(7,8) have le: "r \<le> int (maxb div 4 * 4)" by simp
    show ?thesis
      using a(1-6) a(7,9) [unfolded eq] le
      by (intro exI [of _ rs] exI [of _ rss]) (simp del: butlast.simps last.simps concat.simps)
  qed
qed

lemma noise_runs:
  "fst (ath9k_rng_read script_ops 40 True \<lparr>rng_last = 0\<rparr> ath_two_of_ten) = 8"
  "log (snd (snd (ath9k_rng_read script_ops 40 True \<lparr>rng_last = 0\<rparr> ath_two_of_ten))) =
     scan_evs [(0, 9), (1, 2), (3, 3), (0xffff, 4), (4, 0), (7, 0xffff), (8, 9), (9, 5),
               (0, 0), (0, 0)]"
  "map (mem (snd (snd (ath9k_rng_read script_ops 40 True \<lparr>rng_last = 0\<rparr> ath_two_of_ten))))
     [0, 1, 2] = [0x10002, 0x80009, 0]"
  "noise_words 0 (samples [(0, 9), (1, 2), (3, 3), (0xffff, 4), (4, 0), (7, 0xffff), (8, 9),
     (9, 5), (0, 0), (0, 0)]) = [0x10002, 0x80009]"
  "fst (ath9k_rng_read script_ops 40 False \<lparr>rng_last = 0\<rparr> ath_no_noise) = 0"
  "log (snd (snd (ath9k_rng_read script_ops 40 False \<lparr>rng_last = 0\<rparr> ath_no_noise))) =
     scan_evs (replicate 10 (0, 0))"
  by code_simp+

theorem noise_read_counts_valid_pairs_witness:
  "(4 \<le> (40::nat) \<and> (40::nat) < 2 ^ 31 \<and>
    ath9k_rng_read script_ops 40 True \<lparr>rng_last = 0\<rparr> ath_two_of_ten =
      (8, fst (snd (ath9k_rng_read script_ops 40 True \<lparr>rng_last = 0\<rparr> ath_two_of_ten)),
       snd (snd (ath9k_rng_read script_ops 40 True \<lparr>rng_last = 0\<rparr> ath_two_of_ten)))) \<and>
   (\<exists>rs rss. length rs = 40 div 4 \<and> (\<forall>x \<in> set rss. length x = 40 div 4) \<and>
      length rss \<le> 20 \<and> (rss \<noteq> [] \<longrightarrow> True) \<and>
      log (snd (snd (ath9k_rng_read script_ops 40 True \<lparr>rng_last = 0\<rparr> ath_two_of_ten))) =
        log ath_two_of_ten @ scan_evs rs @ retry_evs rss \<and>
      noise_words (rng_last \<lparr>rng_last = 0\<rparr>) (samples (concat (butlast (rs # rss)))) = [] \<and>
      (8::int) = int (length (noise_words
                 (last_sample (rng_last \<lparr>rng_last = 0\<rparr>) (samples (concat (butlast (rs # rss)))))
                 (samples (last (rs # rss)))) * 4) \<and>
      (8::int) \<le> int (40 div 4 * 4) \<and>
      mem (snd (snd (ath9k_rng_read script_ops 40 True \<lparr>rng_last = 0\<rparr> ath_two_of_ten))) =
        stored (mem ath_two_of_ten)
          (noise_words (last_sample (rng_last \<lparr>rng_last = 0\<rparr>)
             (samples (concat (butlast (rs # rss))))) (samples (last (rs # rss))))) \<and>
   log (snd (snd (ath9k_rng_read script_ops 40 True \<lparr>rng_last = 0\<rparr> ath_two_of_ten))) =
     scan_evs [(0, 9), (1, 2), (3, 3), (0xffff, 4), (4, 0), (7, 0xffff), (8, 9), (9, 5),
               (0, 0), (0, 0)] \<and>
   noise_words 0 (samples [(0, 9), (1, 2), (3, 3), (0xffff, 4), (4, 0), (7, 0xffff), (8, 9),
     (9, 5), (0, 0), (0, 0)]) = [0x10002, 0x80009] \<and>
   map (mem (snd (snd (ath9k_rng_read script_ops 40 True \<lparr>rng_last = 0\<rparr> ath_two_of_ten))))
     [0, 1, 2] = [0x10002, 0x80009, 0] \<and>
   fst (ath9k_rng_read script_ops 40 False \<lparr>rng_last = 0\<rparr> ath_no_noise) = 0 \<and>
   log (snd (snd (ath9k_rng_read script_ops 40 False \<lparr>rng_last = 0\<rparr> ath_no_noise))) =
     scan_evs (replicate 10 (0, 0))"
proof -
  let ?c = "ath9k_rng_read script_ops 40 True \<lparr>rng_last = 0\<rparr> ath_two_of_ten"
  have c: "4 \<le> (40::nat) \<and> (40::nat) < 2 ^ 31 \<and> ?c = (8, fst (snd ?c), snd (snd ?c))"
    using noise_runs(1) by (simp add: prod_eq_iff)
  note inst = noise_read_counts_valid_pairs [of 40 script_ops True "\<lparr>rng_last = 0\<rparr>"
      ath_two_of_ten 8 "fst (snd ?c)" "snd (snd ?c)"]
  from inst c noise_runs(2-6) show ?thesis
    by blast
qed

text \<open>
  C7 at a capacity of \<open>2 ^ 32\<close> bytes. The scan of the alternating device finds
  \<open>2 ^ 30\<close> valid pairs and stores their words, and the read returns 0, the low 32
  bits of the byte count: the result is not 4 times the number of valid pairs, and no
  list of words is both counted by the result and the new contents of the buffer.
\<close>

theorem noise_read_beyond_int_range:
  "(4::nat) \<le> 2 ^ 32 \<and>
   unat (fst (ath9k_rng_data_read alternating_ops (word_of_nat (2 ^ 32 div 4)) \<lparr>rng_last = 0\<rparr>
     ath_alternating)) = 2 ^ 30 \<and>
   fst (ath9k_rng_read alternating_ops (2 ^ 32) False \<lparr>rng_last = 0\<rparr> ath_alternating) = 0 \<and>
   mem (snd (snd (ath9k_rng_read alternating_ops (2 ^ 32) False \<lparr>rng_last = 0\<rparr>
     ath_alternating))) 0 = 0x10002 \<and>
   mem ath_alternating 0 = 0 \<and>
   \<not> (\<exists>rs rss. length rs = 2 ^ 32 div 4 \<and> (\<forall>x \<in> set rss. length x = 2 ^ 32 div 4) \<and>
        length rss \<le> 20 \<and> (rss \<noteq> [] \<longrightarrow> False) \<and>
        log (snd (snd (ath9k_rng_read alternating_ops (2 ^ 32) False \<lparr>rng_last = 0\<rparr>
          ath_alternating))) = log ath_alternating @ scan_evs rs @ retry_evs rss \<and>
        noise_words (rng_last \<lparr>rng_last = 0\<rparr>) (samples (concat (butlast (rs # rss)))) = [] \<and>
        fst (ath9k_rng_read alternating_ops (2 ^ 32) False \<lparr>rng_last = 0\<rparr> ath_alternating) =
          int (length (noise_words
                 (last_sample (rng_last \<lparr>rng_last = 0\<rparr>) (samples (concat (butlast (rs # rss)))))
                 (samples (last (rs # rss)))) * 4) \<and>
        fst (ath9k_rng_read alternating_ops (2 ^ 32) False \<lparr>rng_last = 0\<rparr> ath_alternating)
          \<le> int (2 ^ 32 div 4 * 4) \<and>
        mem (snd (snd (ath9k_rng_read alternating_ops (2 ^ 32) False \<lparr>rng_last = 0\<rparr>
          ath_alternating))) =
          stored (mem ath_alternating)
            (noise_words (last_sample (rng_last \<lparr>rng_last = 0\<rparr>)
               (samples (concat (butlast (rs # rss))))) (samples (last (rs # rss)))))"
proof -
  let ?run = "ath9k_rng_read alternating_ops (2 ^ 32) False \<lparr>rng_last = 0\<rparr> ath_alternating"
  have found: "unat (fst (ath9k_rng_data_read alternating_ops (word_of_nat (2 ^ 32 div 4))
      \<lparr>rng_last = 0\<rparr> ath_alternating)) = 2 ^ 30"
    by (simp only: alternating_read(3)) simp
  have before: "mem ath_alternating 0 = 0"
    by (simp add: ath_alternating_def boot_def)
  have no: "\<not> (\<exists>ws. fst ?run = int (length ws * 4) \<and>
      mem (snd (snd ?run)) = stored (mem ath_alternating) ws)"
  proof
    assume "\<exists>ws. fst ?run = int (length ws * 4) \<and>
      mem (snd (snd ?run)) = stored (mem ath_alternating) ws"
    then obtain ws where r: "fst ?run = int (length ws * 4)"
      and b: "mem (snd (snd ?run)) = stored (mem ath_alternating) ws"
      by blast
    from r have "ws = []" by (simp only: alternating_read(1)) simp
    with b have "mem (snd (snd ?run)) 0 = mem ath_alternating 0"
      by (simp add: stored_def)
    then show False
      by (simp only: alternating_read(2) before) simp
  qed
  have cap: "(4::nat) \<le> 2 ^ 32" by simp
  from cap found alternating_read(1,2) before no show ?thesis
    by blast
qed

section \<open>The sample filter of the ath9k source\<close>

text \<open>
  C8. One scan reads \<open>buf_size\<close> pairs of samples \<open>(v1, v2)\<close>, each the low 16 bits of
  a read of the ADC register. A pair yields the word \<open>(v1 << 16) | v2\<close> exactly when
  \<open>v1\<close> and \<open>v2\<close> are neither 0 nor \<open>0xffff\<close>, \<open>v1 \<noteq> v2\<close>, and \<open>v1\<close> differs from the
  sample before it, which is the \<open>v2\<close> of the pair before or, for the first pair, the
  \<open>rng_last\<close> kept from the scan before. The words of the pairs that pass are stored in
  the buffer from index 0 on, in the order of the pairs (for a \<open>buf_size\<close> of at most
  \<open>2 ^ 31\<close>, where the \<open>int\<close> index cannot wrap), their number is the result, and
  \<open>rng_last\<close> ends as the \<open>v2\<close> of the last pair. Nothing else is dropped or stored:
  the buffer contents are \<open>noise_words\<close>, which applies this test and no other.
\<close>

theorem noise_filter_exact:
  "(ath9k_rng_data_read ops n sc m = (j, sc', m') \<longrightarrow>
      (\<exists>rs. length rs = unat n \<and> log m' = log m @ scan_evs rs \<and>
         unat j = length (noise_words (rng_last sc) (samples rs)) \<and>
         (unat n \<le> 2 ^ 31 \<longrightarrow> mem m' = stored (mem m) (noise_words (rng_last sc) (samples rs))) \<and>
         rng_last sc' = last_sample (rng_last sc) (samples rs))) \<and>
   noise_words prev ((v1, v2) # ps) =
     (if v1 \<noteq> 0 \<and> v1 \<noteq> 0xffff \<and> v2 \<noteq> 0 \<and> v2 \<noteq> 0xffff \<and> v1 \<noteq> v2 \<and> v1 \<noteq> prev
      then (push_bit 16 v1 OR v2) # noise_words v2 ps else noise_words v2 ps) \<and>
   noise_words prev [] = [] \<and>
   last_sample prev (ps @ [(v1, v2)]) = v2 \<and> last_sample prev [] = prev"
proof -
  have A: "ath9k_rng_data_read ops n sc m = (j, sc', m') \<longrightarrow>
      (\<exists>rs. length rs = unat n \<and> log m' = log m @ scan_evs rs \<and>
         unat j = length (noise_words (rng_last sc) (samples rs)) \<and>
         (unat n \<le> 2 ^ 31 \<longrightarrow> mem m' = stored (mem m) (noise_words (rng_last sc) (samples rs))) \<and>
         rng_last sc' = last_sample (rng_last sc) (samples rs))"
  proof
    assume "ath9k_rng_data_read ops n sc m = (j, sc', m')"
    from ath9k_rng_data_read_trace [OF this] obtain rs where rs:
      "length rs = unat n" "log m' = log m @ scan_evs rs"
      "j = word_of_nat (length (noise_words (rng_last sc) (samples rs)))"
      "rng_last sc' = last_sample (rng_last sc) (samples rs)"
      "mem m' = store_words (mem m) 0 (noise_words (rng_last sc) (samples rs))"
      by blast
    let ?ws = "noise_words (rng_last sc) (samples rs)"
    have ls: "length (samples rs) = unat n" using rs(1) by simp
    have uj: "unat j = length ?ws"
      using unat_noise_count [OF ls] rs(3) by simp
    have le: "length ?ws \<le> unat n"
      using length_noise_words [of "rng_last sc" "samples rs"] ls by simp
    have mm: "unat n \<le> 2 ^ 31 \<longrightarrow> mem m' = stored (mem m) ?ws"
    proof
      assume "unat n \<le> 2 ^ 31"
      with le have "length ?ws \<le> 2 ^ 31" by simp
      with rs(5) show "mem m' = stored (mem m) ?ws"
        by (simp add: store_words_stored)
    qed
    from rs(1,2,4) uj mm show "\<exists>rs. length rs = unat n \<and> log m' = log m @ scan_evs rs \<and>
         unat j = length (noise_words (rng_last sc) (samples rs)) \<and>
         (unat n \<le> 2 ^ 31 \<longrightarrow> mem m' = stored (mem m) (noise_words (rng_last sc) (samples rs))) \<and>
         rng_last sc' = last_sample (rng_last sc) (samples rs)"
      by blast
  qed
  have B: "noise_words prev ((v1, v2) # ps) =
     (if v1 \<noteq> 0 \<and> v1 \<noteq> 0xffff \<and> v2 \<noteq> 0 \<and> v2 \<noteq> 0xffff \<and> v1 \<noteq> v2 \<and> v1 \<noteq> prev
      then (push_bit 16 v1 OR v2) # noise_words v2 ps else noise_words v2 ps)"
    by (simp add: pair_ok_def)
  have C: "last_sample prev (ps @ [(v1, v2)]) = v2" "last_sample prev [] = prev"
    by (simp_all add: last_sample_def)
  from A B C show ?thesis by simp
qed

lemma filter_runs:
  "fst (ath9k_rng_data_read script_ops 9 \<lparr>rng_last = 7\<rparr> ath_filter_demo) = 2"
  "rng_last (fst (snd (ath9k_rng_data_read script_ops 9 \<lparr>rng_last = 7\<rparr> ath_filter_demo))) = 2"
  "log (snd (snd (ath9k_rng_data_read script_ops 9 \<lparr>rng_last = 7\<rparr> ath_filter_demo))) =
     scan_evs [(7, 2), (3, 3), (0xffff, 4), (2, 0), (7, 0xffff), (8, 9), (9, 5), (0, 6), (1, 2)]"
  "map (mem (snd (snd (ath9k_rng_data_read script_ops 9 \<lparr>rng_last = 7\<rparr> ath_filter_demo))))
     [0, 1, 2] = [0x80009, 0x10002, 0]"
  "noise_words 7 (samples [(7, 2), (3, 3), (0xffff, 4), (2, 0), (7, 0xffff), (8, 9), (9, 5),
     (0, 6), (1, 2)]) = [0x80009, 0x10002]"
  by code_simp+

lemma filter_scan_small: "unat (9 :: 32 word) \<le> 2 ^ 31"
  by simp

theorem noise_filter_exact_witness:
  "ath9k_rng_data_read script_ops 9 \<lparr>rng_last = 7\<rparr> ath_filter_demo =
     (2, fst (snd (ath9k_rng_data_read script_ops 9 \<lparr>rng_last = 7\<rparr> ath_filter_demo)),
      snd (snd (ath9k_rng_data_read script_ops 9 \<lparr>rng_last = 7\<rparr> ath_filter_demo))) \<and>
   unat (9 :: 32 word) \<le> 2 ^ 31 \<and>
   (\<exists>rs. length rs = unat (9 :: 32 word) \<and>
      log (snd (snd (ath9k_rng_data_read script_ops 9 \<lparr>rng_last = 7\<rparr> ath_filter_demo)))
        = log ath_filter_demo @ scan_evs rs \<and>
      unat (2 :: 32 word) = length (noise_words (rng_last \<lparr>rng_last = 7\<rparr>) (samples rs)) \<and>
      mem (snd (snd (ath9k_rng_data_read script_ops 9 \<lparr>rng_last = 7\<rparr> ath_filter_demo)))
        = stored (mem ath_filter_demo) (noise_words (rng_last \<lparr>rng_last = 7\<rparr>) (samples rs)) \<and>
      rng_last (fst (snd (ath9k_rng_data_read script_ops 9 \<lparr>rng_last = 7\<rparr> ath_filter_demo)))
        = last_sample (rng_last \<lparr>rng_last = 7\<rparr>) (samples rs)) \<and>
   log (snd (snd (ath9k_rng_data_read script_ops 9 \<lparr>rng_last = 7\<rparr> ath_filter_demo))) =
     scan_evs [(7, 2), (3, 3), (0xffff, 4), (2, 0), (7, 0xffff), (8, 9), (9, 5), (0, 6), (1, 2)] \<and>
   noise_words 7 (samples [(7, 2), (3, 3), (0xffff, 4), (2, 0), (7, 0xffff), (8, 9), (9, 5),
     (0, 6), (1, 2)]) = [0x80009, 0x10002] \<and>
   map (mem (snd (snd (ath9k_rng_data_read script_ops 9 \<lparr>rng_last = 7\<rparr> ath_filter_demo))))
     [0, 1, 2] = [0x80009, 0x10002, 0] \<and>
   rng_last (fst (snd (ath9k_rng_data_read script_ops 9 \<lparr>rng_last = 7\<rparr> ath_filter_demo))) = 2"
proof -
  let ?c = "ath9k_rng_data_read script_ops 9 \<lparr>rng_last = 7\<rparr> ath_filter_demo"
  have c: "?c = (2, fst (snd ?c), snd (snd ?c))"
    using filter_runs(1) by (simp add: prod_eq_iff)
  note inst = noise_filter_exact [of script_ops 9 "\<lparr>rng_last = 7\<rparr>" ath_filter_demo 2
      "fst (snd ?c)" "snd (snd ?c)"]
  from inst c filter_scan_small have "\<exists>rs. length rs = unat (9 :: 32 word) \<and>
      log (snd (snd ?c)) = log ath_filter_demo @ scan_evs rs \<and>
      unat (2 :: 32 word) = length (noise_words (rng_last \<lparr>rng_last = 7\<rparr>) (samples rs)) \<and>
      mem (snd (snd ?c))
        = stored (mem ath_filter_demo) (noise_words (rng_last \<lparr>rng_last = 7\<rparr>) (samples rs)) \<and>
      rng_last (fst (snd ?c)) = last_sample (rng_last \<lparr>rng_last = 7\<rparr>) (samples rs)"
    by blast
  with c filter_runs(2-5) filter_scan_small show ?thesis
    by blast
qed

section \<open>Attaching the TX4939 source\<close>

text \<open>
  C9. When the memory and the register mapping were obtained, \<open>tx4939_rng_probe\<close> first
  writes reset, zero and start to the control register, and then calls the read entry
  point with \<open>wait\<close> set and room for three words. It ends in one of three ways. Either
  two such reads were made, each returned 24 bytes, and only then the source was
  registered, the result being that of the registration; or the first read returned 0;
  or the first returned 24 and the second returned 0. In the last two cases the result
  is \<open>-EIO\<close>, an error code, and nothing was registered. A read that returns 0 here
  has made all 21 checks.
\<close>

theorem probe_discards_two_reads:
  "(kzalloc_ok env \<and> ioremap_err env = None \<and> tx4939_rng_probe c64 d env s = (r, t) \<longrightarrow>
      (\<exists>v1 vs1 ws1 v2 vs2 ws2.
          log t = log s @ tx_reset_evs c64 @ tx_read_evs c64 v1 vs1 ws1
                  @ tx_read_evs c64 v2 vs2 ws2 @ [SetDrvdata, HwrngRegister] \<and>
          tx_polled True v1 vs1 \<and> tx_polled True v2 vs2 \<and> length ws1 = 3 \<and> length ws2 = 3 \<and>
          fst (tx4939_rng_read c64 d 24 True (tx_after_reset c64 d s)) = 24 \<and>
          fst (tx4939_rng_read c64 d 24 True
                 (snd (tx4939_rng_read c64 d 24 True (tx_after_reset c64 d s)))) = 24 \<and>
          r = hwrng_register_ret env) \<or>
      (r = - EIO \<and> HwrngRegister \<notin> set (drop (length (log s)) (log t)) \<and>
       ((\<exists>v1 vs1.
           log t = log s @ tx_reset_evs c64 @ tx_idle_evs c64 v1 vs1 \<and> length vs1 = 20 \<and>
           fst (tx4939_rng_read c64 d 24 True (tx_after_reset c64 d s)) = 0) \<or>
        (\<exists>v1 vs1 ws1 v2 vs2.
           log t = log s @ tx_reset_evs c64 @ tx_read_evs c64 v1 vs1 ws1
                   @ tx_idle_evs c64 v2 vs2 \<and>
           length ws1 = 3 \<and> length vs2 = 20 \<and>
           fst (tx4939_rng_read c64 d 24 True (tx_after_reset c64 d s)) = 24 \<and>
           fst (tx4939_rng_read c64 d 24 True
                  (snd (tx4939_rng_read c64 d 24 True (tx_after_reset c64 d s)))) = 0)))) \<and>
   - EIO < 0"
proof -
  have A: "kzalloc_ok env \<and> ioremap_err env = None \<and> tx4939_rng_probe c64 d env s = (r, t) \<longrightarrow>
      (\<exists>v1 vs1 ws1 v2 vs2 ws2.
          log t = log s @ tx_reset_evs c64 @ tx_read_evs c64 v1 vs1 ws1
                  @ tx_read_evs c64 v2 vs2 ws2 @ [SetDrvdata, HwrngRegister] \<and>
          tx_polled True v1 vs1 \<and> tx_polled True v2 vs2 \<and> length ws1 = 3 \<and> length ws2 = 3 \<and>
          fst (tx4939_rng_read c64 d 24 True (tx_after_reset c64 d s)) = 24 \<and>
          fst (tx4939_rng_read c64 d 24 True
                 (snd (tx4939_rng_read c64 d 24 True (tx_after_reset c64 d s)))) = 24 \<and>
          r = hwrng_register_ret env) \<or>
      (r = - EIO \<and> HwrngRegister \<notin> set (drop (length (log s)) (log t)) \<and>
       ((\<exists>v1 vs1.
           log t = log s @ tx_reset_evs c64 @ tx_idle_evs c64 v1 vs1 \<and> length vs1 = 20 \<and>
           fst (tx4939_rng_read c64 d 24 True (tx_after_reset c64 d s)) = 0) \<or>
        (\<exists>v1 vs1 ws1 v2 vs2.
           log t = log s @ tx_reset_evs c64 @ tx_read_evs c64 v1 vs1 ws1
                   @ tx_idle_evs c64 v2 vs2 \<and>
           length ws1 = 3 \<and> length vs2 = 20 \<and>
           fst (tx4939_rng_read c64 d 24 True (tx_after_reset c64 d s)) = 24 \<and>
           fst (tx4939_rng_read c64 d 24 True
                  (snd (tx4939_rng_read c64 d 24 True (tx_after_reset c64 d s)))) = 0)))"
    (is "_ \<longrightarrow> ?ok \<or> ?fail")
  proof
    assume "kzalloc_ok env \<and> ioremap_err env = None \<and> tx4939_rng_probe c64 d env s = (r, t)"
    then have env: "kzalloc_ok env" "ioremap_err env = None"
      and run: "tx4939_rng_probe c64 d env s = (r, t)"
      by simp_all
    let ?s0 = "tx_after_reset c64 d s"
    obtain r1 s1 where rd1: "tx4939_rng_read c64 d 24 True ?s0 = (r1, s1)"
      by (cases "tx4939_rng_read c64 d 24 True ?s0")
    obtain r2 s2 where rd2: "tx4939_rng_read c64 d 24 True s1 = (r2, s2)"
      by (cases "tx4939_rng_read c64 d 24 True s1")
    note pr = run [unfolded tx4939_rng_probe_unroll [OF env]]
    from rd1 show "?ok \<or> ?fail"
    proof (cases rule: tx_discard_read_cases)
      case (idle v1 vs1)
      with pr rd1 have res: "r = - EIO" "t = s1" by simp_all
      have lg: "log t = log s @ tx_reset_evs c64 @ tx_idle_evs c64 v1 vs1"
        using idle(5) res(2) by simp
      then have "HwrngRegister \<notin> set (drop (length (log s)) (log t))"
        by (simp add: no_register_in_tx_evs tx_idle_evs_def)
      moreover have "\<exists>v1 vs1.
           log t = log s @ tx_reset_evs c64 @ tx_idle_evs c64 v1 vs1 \<and> length vs1 = 20 \<and>
           fst (tx4939_rng_read c64 d 24 True ?s0) = 0"
        using lg idle(3,4) rd1
        by (intro exI [of _ v1] exI [of _ vs1]) simp
      ultimately have ?fail using res(1) by blast
      then show ?thesis ..
    next
      case first: (full v1 vs1 ws1)
      from rd2 show ?thesis
      proof (cases rule: tx_discard_read_cases)
        case (idle v2 vs2)
        with pr rd1 rd2 first(4) have res: "r = - EIO" "t = s2" by simp_all
        have lg: "log t = log s @ tx_reset_evs c64 @ tx_read_evs c64 v1 vs1 ws1
            @ tx_idle_evs c64 v2 vs2"
          using idle(5) first(5) res(2) by simp
        then have "HwrngRegister \<notin> set (drop (length (log s)) (log t))"
          by (simp add: no_register_in_tx_evs tx_idle_evs_def tx_read_evs_def)
        moreover have "\<exists>v1 vs1 ws1 v2 vs2.
           log t = log s @ tx_reset_evs c64 @ tx_read_evs c64 v1 vs1 ws1
                   @ tx_idle_evs c64 v2 vs2 \<and>
           length ws1 = 3 \<and> length vs2 = 20 \<and>
           fst (tx4939_rng_read c64 d 24 True ?s0) = 24 \<and>
           fst (tx4939_rng_read c64 d 24 True (snd (tx4939_rng_read c64 d 24 True ?s0))) = 0"
          using lg idle(3,4) first(3,4) rd1 rd2
          by (intro exI [of _ v1] exI [of _ vs1] exI [of _ ws1] exI [of _ v2] exI [of _ vs2])
            simp
        ultimately have ?fail using res(1) by blast
        then show ?thesis ..
      next
        case (full v2 vs2 ws2)
        with pr rd1 rd2 first(4) have res: "r = hwrng_register_ret env"
          "t = s2\<lparr>log := log s2 @ [SetDrvdata, HwrngRegister]\<rparr>"
          by simp_all
        have lg: "log t = log s @ tx_reset_evs c64 @ tx_read_evs c64 v1 vs1 ws1
            @ tx_read_evs c64 v2 vs2 ws2 @ [SetDrvdata, HwrngRegister]"
          using full(5) first(5) res(2) by simp
        have ?ok
          using lg first(1,3,4) full(1,3,4) rd1 rd2 res(1)
          by (intro exI [of _ v1] exI [of _ vs1] exI [of _ ws1] exI [of _ v2] exI [of _ vs2]
              exI [of _ ws2]) simp
        then show ?thesis ..
      qed
    qed
  qed
  have "- EIO < 0" by (simp add: EIO_def)
  with A show ?thesis by blast
qed

lemma probe_runs:
  "fst (tx4939_rng_probe True script_dev probe_ok tx_two_cycles) = 0"
  "log (snd (tx4939_rng_probe True script_dev probe_ok tx_two_cycles)) =
     [MmioWrite 0 4, MmioWrite 0 0, MmioWrite 0 1,
      MmioRead 0 1, Ndelay 450, MmioRead 0 0,
      MmioRead 24 11, MmioRead 32 12, MmioRead 40 13, MmioWrite 0 1,
      MmioRead 0 0,
      MmioRead 24 21, MmioRead 32 22, MmioRead 40 23, MmioWrite 0 1,
      SetDrvdata, HwrngRegister]"
  "fst (tx4939_rng_probe True script_dev probe_ok tx_second_stuck) = - 5"
  "HwrngRegister \<notin> set (log (snd (tx4939_rng_probe True script_dev probe_ok tx_second_stuck)))"
  "length (log (snd (tx4939_rng_probe True script_dev probe_ok tx_second_stuck))) = 49"
  "kzalloc_ok probe_ok" "ioremap_err probe_ok = None" "hwrng_register_ret probe_ok = 0"
  by code_simp+

theorem probe_discards_two_reads_witness:
  "(kzalloc_ok probe_ok \<and> ioremap_err probe_ok = None \<and>
    tx4939_rng_probe True script_dev probe_ok tx_two_cycles =
      (0, snd (tx4939_rng_probe True script_dev probe_ok tx_two_cycles))) \<and>
   ((\<exists>v1 vs1 ws1 v2 vs2 ws2.
        log (snd (tx4939_rng_probe True script_dev probe_ok tx_two_cycles)) =
          log tx_two_cycles @ tx_reset_evs True @ tx_read_evs True v1 vs1 ws1
          @ tx_read_evs True v2 vs2 ws2 @ [SetDrvdata, HwrngRegister] \<and>
        tx_polled True v1 vs1 \<and> tx_polled True v2 vs2 \<and> length ws1 = 3 \<and> length ws2 = 3 \<and>
        fst (tx4939_rng_read True script_dev 24 True
               (tx_after_reset True script_dev tx_two_cycles)) = 24 \<and>
        fst (tx4939_rng_read True script_dev 24 True
               (snd (tx4939_rng_read True script_dev 24 True
                       (tx_after_reset True script_dev tx_two_cycles)))) = 24 \<and>
        (0::int) = hwrng_register_ret probe_ok) \<or>
    ((0::int) = - EIO \<and>
     HwrngRegister \<notin> set (drop (length (log tx_two_cycles))
        (log (snd (tx4939_rng_probe True script_dev probe_ok tx_two_cycles)))) \<and>
     ((\<exists>v1 vs1.
         log (snd (tx4939_rng_probe True script_dev probe_ok tx_two_cycles)) =
           log tx_two_cycles @ tx_reset_evs True @ tx_idle_evs True v1 vs1 \<and> length vs1 = 20 \<and>
         fst (tx4939_rng_read True script_dev 24 True
                (tx_after_reset True script_dev tx_two_cycles)) = 0) \<or>
      (\<exists>v1 vs1 ws1 v2 vs2.
         log (snd (tx4939_rng_probe True script_dev probe_ok tx_two_cycles)) =
           log tx_two_cycles @ tx_reset_evs True @ tx_read_evs True v1 vs1 ws1
           @ tx_idle_evs True v2 vs2 \<and>
         length ws1 = 3 \<and> length vs2 = 20 \<and>
         fst (tx4939_rng_read True script_dev 24 True
                (tx_after_reset True script_dev tx_two_cycles)) = 24 \<and>
         fst (tx4939_rng_read True script_dev 24 True
                (snd (tx4939_rng_read True script_dev 24 True
                        (tx_after_reset True script_dev tx_two_cycles)))) = 0)))) \<and>
   - EIO < 0 \<and>
   log (snd (tx4939_rng_probe True script_dev probe_ok tx_two_cycles)) =
     [MmioWrite 0 4, MmioWrite 0 0, MmioWrite 0 1,
      MmioRead 0 1, Ndelay 450, MmioRead 0 0,
      MmioRead 24 11, MmioRead 32 12, MmioRead 40 13, MmioWrite 0 1,
      MmioRead 0 0,
      MmioRead 24 21, MmioRead 32 22, MmioRead 40 23, MmioWrite 0 1,
      SetDrvdata, HwrngRegister] \<and>
   fst (tx4939_rng_probe True script_dev probe_ok tx_second_stuck) = - 5 \<and>
   HwrngRegister \<notin> set (log (snd (tx4939_rng_probe True script_dev probe_ok tx_second_stuck)))"
proof -
  let ?p = "tx4939_rng_probe True script_dev probe_ok tx_two_cycles"
  have p: "kzalloc_ok probe_ok \<and> ioremap_err probe_ok = None \<and> ?p = (0, snd ?p)"
    using probe_runs(1,6,7) by (simp add: prod_eq_iff)
  note inst = probe_discards_two_reads [of probe_ok True script_dev tx_two_cycles 0 "snd ?p"]
  from inst p probe_runs(2,3,4) show ?thesis
    by blast
qed

end
